theory Spec2Isabelle
  imports Complex_Main
begin

section \<open>Two game loops: a paddle-ball game and an obstacle runner\<close>

text \<open>
  The source file holds two Arduino sketches with the same architecture: a three-state
  session state machine, a per-tick logic update and a full-screen redraw. The sketches
  share the names \<open>gameState\<close>, \<open>setup\<close>, \<open>loop\<close> and \<open>updateGameLogic\<close>; here the
  paddle-ball sketch carries the suffix \<open>_pong\<close> and the obstacle runner the suffix
  \<open>_bird\<close> wherever the names would clash.

  Modelling decisions, the same for both sketches:
  \<^item> the global variables of a sketch are the fields of one record, and every function of
    the sketch takes the record and returns it updated;
  \<^item> a C \<open>float\<close> is a \<^typ>\<open>real\<close> and the arithmetic on it is exact: rounding is not
    modelled. The properties proved below rest on comparisons, negations and assignments
    of constants, which rounding does not change;
  \<^item> a C \<open>int\<close> is an \<^typ>\<open>int\<close>: the counters of the sketches stay far below
    \<open>2^31\<close> in any run a player can produce;
  \<^item> the drawing functions write to the display only and change no variable of the
    sketch, so they do not appear;
  \<^item> \<open>delay(10)\<close> changes no variable either.
\<close>

subsection \<open>Session states, inputs and the random source\<close>

datatype GameState = START_SCREEN | PLAYING | GAME_OVER

text \<open>
  One sample of the two switches: the left and the right one, \<^term>\<open>True\<close> when the switch
  is pressed. The pins are wired active-low, so a component is the value of
  \<open>!digitalRead(PIN)\<close>. All reads of one loop iteration outside the busy-wait see the
  same sample.
\<close>

type_synonym buttons = "bool \<times> bool"

definition left_pressed :: "buttons \<Rightarrow> bool" where
  "left_pressed b = fst b"

definition right_pressed :: "buttons \<Rightarrow> bool" where
  "right_pressed b = snd b"

definition any_pressed :: "buttons \<Rightarrow> bool" where
  "any_pressed b = (left_pressed b \<or> right_pressed b)"

text \<open>
  The busy-wait \<open>while(!digitalRead(LEFT_SWITCH_PIN) || !digitalRead(RIGHT_SWITCH_PIN));\<close>
  polls the switches until both are released. \<open>w\<close> is the sequence of samples the polls
  see; the result is the index of the first sample with both switches released, and
  \<^term>\<open>None\<close> when the switches are never released and the loop spins forever.
\<close>

partial_function (option) wait_release :: "(nat \<Rightarrow> buttons) \<Rightarrow> nat \<Rightarrow> nat option" where
  "wait_release w n = (if any_pressed (w n) then wait_release w (Suc n) else Some n)"

text \<open>
  Modelled from the spec: the random source is the Arduino core's \<open>random\<close>, which is not
  part of the repository (``a seeded generator producing uniform integers in a bounded
  range''). The generator is the sequence of raw values it will still return;
  \<open>random(howbig)\<close> reduces the next raw value to \<open>[0, howbig)\<close>, and
  \<open>random(howsmall, howbig)\<close> is \<open>random(howbig - howsmall) + howsmall\<close>, as in the
  Arduino core. Since the raw values are arbitrary, every value of the range can come out
  of every call.
\<close>

type_synonym rng = "nat \<Rightarrow> nat"

definition random1 :: "int \<Rightarrow> rng \<Rightarrow> int \<times> rng" where
  "random1 howbig g =
     (if howbig = 0 then (0, g) else (int (g 0) mod howbig, \<lambda>n. g (Suc n)))"

definition random2 :: "int \<Rightarrow> int \<Rightarrow> rng \<Rightarrow> int \<times> rng" where
  "random2 howsmall howbig g =
     (if howsmall \<ge> howbig then (howsmall, g)
      else (let (r, g') = random1 (howbig - howsmall) g in (r + howsmall, g')))"

definition SCREEN_WIDTH :: int where [simp]: "SCREEN_WIDTH = 320"
definition SCREEN_HEIGHT :: int where [simp]: "SCREEN_HEIGHT = 170"

subsection \<open>The paddle-ball sketch\<close>

definition PADDLE_WIDTH :: int where [simp]: "PADDLE_WIDTH = 80"
definition PADDLE_HEIGHT :: int where [simp]: "PADDLE_HEIGHT = 10"
definition PADDLE_Y_POS :: int where [simp]: "PADDLE_Y_POS = SCREEN_HEIGHT - PADDLE_HEIGHT - 2"
definition AI_PADDLE_Y_POS :: int where [simp]: "AI_PADDLE_Y_POS = 2"
definition PADDLE_SPEED :: int where [simp]: "PADDLE_SPEED = 6"
definition BALL_SIZE :: int where [simp]: "BALL_SIZE = 10"
definition WINNING_SCORE :: int where [simp]: "WINNING_SCORE = 5"

record pong =
  gameState_pong :: GameState
  player_x :: real
  ai_x :: real
  ball_x :: real
  ball_y :: real
  ball_vx :: real
  ball_vy :: real
  playerScore :: int
  aiScore :: int
  rng_pong :: rng

text \<open>
  \<open>serveBall\<close>. The two calls of \<open>random\<close> in the product are taken left to right (C++
  leaves the order open; the order decides which raw value serves which call, not the
  range of either).
\<close>

definition serveBall :: "int \<Rightarrow> pong \<Rightarrow> pong" where
  "serveBall direction s =
     (let (m, g1) = random2 2 4 (rng_pong s);
          (r, g2) = random1 2 g1
      in s\<lparr>ball_x := of_int (SCREEN_WIDTH div 2),
            ball_y := of_int (SCREEN_HEIGHT div 2),
            ball_vx := of_int (m * (if r = 0 then 1 else - 1)),
            ball_vy := of_int (3 * direction),
            rng_pong := g2\<rparr>)"

definition resetGame :: "pong \<Rightarrow> pong" where
  "resetGame s =
     (let s1 = s\<lparr>playerScore := 0, aiScore := 0,
                 player_x := of_int ((SCREEN_WIDTH - PADDLE_WIDTH) div 2),
                 ai_x := of_int ((SCREEN_WIDTH - PADDLE_WIDTH) div 2)\<rparr>;
          (r, g) = random1 2 (rng_pong s1)
      in serveBall (if r = 0 then 1 else - 1) (s1\<lparr>rng_pong := g\<rparr>))"

text \<open>
  \<open>updateGameLogic\<close> of the paddle-ball sketch, one definition per commented section
  of the function, in the order of the source.
\<close>

definition player_input :: "buttons \<Rightarrow> pong \<Rightarrow> pong" where
  "player_input b s =
     (let s1 = (if left_pressed b then s\<lparr>player_x := player_x s - of_int PADDLE_SPEED\<rparr> else s);
          s2 = (if right_pressed b then s1\<lparr>player_x := player_x s1 + of_int PADDLE_SPEED\<rparr> else s1);
          s3 = (if player_x s2 < 0 then s2\<lparr>player_x := 0\<rparr> else s2)
      in if player_x s3 > of_int (SCREEN_WIDTH - PADDLE_WIDTH)
         then s3\<lparr>player_x := of_int (SCREEN_WIDTH - PADDLE_WIDTH)\<rparr> else s3)"

definition ai_logic :: "pong \<Rightarrow> pong" where
  "ai_logic s =
     (let ai_target_x = ball_x s - of_int (PADDLE_WIDTH div 2);
          s1 = (if ai_x s < ai_target_x then s\<lparr>ai_x := ai_x s + of_int PADDLE_SPEED * 0.7\<rparr> else s);
          s2 = (if ai_x s1 > ai_target_x then s1\<lparr>ai_x := ai_x s1 - of_int PADDLE_SPEED * 0.7\<rparr> else s1);
          s3 = (if ai_x s2 < 0 then s2\<lparr>ai_x := 0\<rparr> else s2)
      in if ai_x s3 > of_int (SCREEN_WIDTH - PADDLE_WIDTH)
         then s3\<lparr>ai_x := of_int (SCREEN_WIDTH - PADDLE_WIDTH)\<rparr> else s3)"

definition ball_move :: "pong \<Rightarrow> pong" where
  "ball_move s =
     (let s1 = s\<lparr>ball_x := ball_x s + ball_vx s\<rparr>
      in s1\<lparr>ball_y := ball_y s1 + ball_vy s1\<rparr>)"

definition wall_collision :: "pong \<Rightarrow> pong" where
  "wall_collision s =
     (if ball_x s < 0 \<or> ball_x s > of_int (SCREEN_WIDTH - BALL_SIZE)
      then s\<lparr>ball_vx := - ball_vx s\<rparr> else s)"

definition player_contact :: "pong \<Rightarrow> bool" where
  "player_contact s =
     (ball_vy s > 0 \<and> ball_y s + of_int BALL_SIZE \<ge> of_int PADDLE_Y_POS
      \<and> ball_x s + of_int BALL_SIZE > player_x s
      \<and> ball_x s < player_x s + of_int PADDLE_WIDTH)"

definition ai_contact :: "pong \<Rightarrow> bool" where
  "ai_contact s =
     (ball_vy s < 0 \<and> ball_y s \<le> of_int (AI_PADDLE_Y_POS + PADDLE_HEIGHT)
      \<and> ball_x s + of_int BALL_SIZE > ai_x s
      \<and> ball_x s < ai_x s + of_int PADDLE_WIDTH)"

definition paddle_collisions :: "pong \<Rightarrow> pong" where
  "paddle_collisions s =
     (let s1 = (if player_contact s
                then (let t = s\<lparr>ball_vy := - ball_vy s\<rparr>
                      in t\<lparr>ball_vx := ball_vx t
                             + (ball_x t - (player_x t + of_int (PADDLE_WIDTH div 2))) / 10\<rparr>)
                else s)
      in if ai_contact s1 then s1\<lparr>ball_vy := - ball_vy s1\<rparr> else s1)"

definition scoring :: "pong \<Rightarrow> pong" where
  "scoring s =
     (let s1 = (if ball_y s > of_int SCREEN_HEIGHT
                then serveBall (- 1) (s\<lparr>aiScore := aiScore s + 1\<rparr>) else s)
      in if ball_y s1 < 0
         then serveBall 1 (s1\<lparr>playerScore := playerScore s1 + 1\<rparr>) else s1)"

definition updateGameLogic_pong :: "buttons \<Rightarrow> pong \<Rightarrow> pong" where
  "updateGameLogic_pong b s =
     scoring (paddle_collisions (wall_collision (ball_move (ai_logic (player_input b s)))))"

text \<open>
  \<open>loop\<close> of the paddle-ball sketch: \<open>b\<close> is the sample the iteration reads, \<open>w\<close> the
  samples its busy-wait polls when it is entered. The result is \<^term>\<open>None\<close> when the
  busy-wait never ends.
\<close>

definition loop_pong :: "buttons \<Rightarrow> (nat \<Rightarrow> buttons) \<Rightarrow> pong \<Rightarrow> pong option" where
  "loop_pong b w s =
     (case gameState_pong s of
        START_SCREEN \<Rightarrow>
          (if any_pressed b
           then (case wait_release w 0 of
                   None \<Rightarrow> None
                 | Some _ \<Rightarrow> Some ((resetGame s)\<lparr>gameState_pong := PLAYING\<rparr>))
           else Some s)
      | PLAYING \<Rightarrow>
          (let s1 = updateGameLogic_pong b s
           in Some (if playerScore s1 \<ge> WINNING_SCORE \<or> aiScore s1 \<ge> WINNING_SCORE
                    then s1\<lparr>gameState_pong := GAME_OVER\<rparr> else s1))
      | GAME_OVER \<Rightarrow>
          (if any_pressed b
           then (case wait_release w 0 of
                   None \<Rightarrow> None
                 | Some _ \<Rightarrow> Some ((resetGame s)\<lparr>gameState_pong := START_SCREEN\<rparr>))
           else Some s))"

text \<open>
  \<open>setup\<close> of the paddle-ball sketch: the variables of a sketch are zero at power-up,
  \<open>randomSeed\<close> fixes the generator \<open>g\<close>, then \<open>resetGame\<close> runs and the session
  starts on the title screen.
\<close>

definition power_on_pong :: "rng \<Rightarrow> pong" where
  "power_on_pong g =
     \<lparr>gameState_pong = START_SCREEN, player_x = 0, ai_x = 0, ball_x = 0, ball_y = 0,
      ball_vx = 0, ball_vy = 0, playerScore = 0, aiScore = 0, rng_pong = g\<rparr>"

definition setup_pong :: "rng \<Rightarrow> pong" where
  "setup_pong g = (resetGame (power_on_pong g))\<lparr>gameState_pong := START_SCREEN\<rparr>"

text \<open>The states a run of the paddle-ball sketch passes through, one per loop iteration.\<close>

inductive pong_run :: "pong \<Rightarrow> pong \<Rightarrow> bool" where
  pong_run_refl: "pong_run s s"
| pong_run_step: "pong_run s t \<Longrightarrow> loop_pong b w t = Some u \<Longrightarrow> pong_run s u"

text \<open>
  \<open>ticks_pong b s n\<close> is the state after \<open>n\<close> consecutive logic updates from \<open>s\<close>, the
  \<open>k\<close>-th of them reading the sample \<open>b k\<close>.
\<close>

fun ticks_pong :: "(nat \<Rightarrow> buttons) \<Rightarrow> pong \<Rightarrow> nat \<Rightarrow> pong" where
  "ticks_pong b s 0 = s"
| "ticks_pong b s (Suc n) = updateGameLogic_pong (b n) (ticks_pong b s n)"

subsection \<open>The obstacle runner\<close>

definition BIRD_X_POS :: int where [simp]: "BIRD_X_POS = 60"
definition BIRD_WIDTH :: int where [simp]: "BIRD_WIDTH = 20"
definition BIRD_HEIGHT :: int where [simp]: "BIRD_HEIGHT = 20"
definition GRAVITY :: real where [simp]: "GRAVITY = 0.3"
definition FLAP_VELOCITY :: real where [simp]: "FLAP_VELOCITY = - 5.0"
definition GROUND_HEIGHT :: int where [simp]: "GROUND_HEIGHT = 10"
definition PIPE_WIDTH :: int where [simp]: "PIPE_WIDTH = 40"
definition PIPE_GAP_HEIGHT :: int where [simp]: "PIPE_GAP_HEIGHT = 80"
definition PIPE_SPEED :: int where [simp]: "PIPE_SPEED = 2"
definition PIPE_SPACING :: int where [simp]: "PIPE_SPACING = 180"
definition NUM_PIPES :: nat where [simp]: "NUM_PIPES = 2"

text \<open>
  \<open>struct Pipe\<close>; its field \<open>x\<close> is \<open>pipe_x\<close> here, so that \<open>x\<close> stays free for
  variables. The array \<open>pipes[NUM_PIPES]\<close> is a list; the loops of the sketch index it
  with \<open>0 \<le> i < NUM_PIPES\<close> only, and the list has \<open>NUM_PIPES\<close> elements from
  power-up on (every theorem that reads an element has that length as a hypothesis or
  derives it).
\<close>

record Pipe =
  pipe_x :: int
  gap_y :: int
  scored :: bool

record bird =
  gameState_bird :: GameState
  pipes :: "Pipe list"
  bird_y :: real
  bird_y_velocity :: real
  score :: int
  highScore :: int
  button_was_pressed :: bool
  rng_bird :: rng

text \<open>
  The call \<open>random(PIPE_GAP_HEIGHT / 2 + 20, SCREEN_HEIGHT - PIPE_GAP_HEIGHT / 2 -
  GROUND_HEIGHT - 20)\<close>, which \<open>setupGame\<close> and the recycling of a pipe both make.
\<close>

definition random_gap :: "rng \<Rightarrow> int \<times> rng" where
  "random_gap g =
     random2 (PIPE_GAP_HEIGHT div 2 + 20)
             (SCREEN_HEIGHT - PIPE_GAP_HEIGHT div 2 - GROUND_HEIGHT - 20) g"

text \<open>The body of the loop of \<open>setupGame\<close>, for the pipe with index \<open>i\<close>.\<close>

definition setup_pipe :: "nat \<Rightarrow> bird \<Rightarrow> bird" where
  "setup_pipe i s =
     (let (r, g) = random_gap (rng_bird s)
      in s\<lparr>pipes := (pipes s)[i := \<lparr>pipe_x = SCREEN_WIDTH + int i * PIPE_SPACING,
                                     gap_y = r, scored = False\<rparr>],
            rng_bird := g\<rparr>)"

definition setupGame :: "bird \<Rightarrow> bird" where
  "setupGame s =
     fold setup_pipe [0..<NUM_PIPES]
       (s\<lparr>bird_y := of_int (SCREEN_HEIGHT div 2), bird_y_velocity := 0, score := 0\<rparr>)"

text \<open>
  The body of the pipe loop of \<open>updateGameLogic\<close>, for the pipe with index \<open>i\<close>: the
  pipe moves left, is recycled when it has left the screen, and is scored when its right
  edge is left of the bird.
\<close>

definition pipe_logic :: "nat \<Rightarrow> bird \<Rightarrow> bird" where
  "pipe_logic i s =
     (let p = pipes s ! i;
          s1 = s\<lparr>pipes := (pipes s)[i := p\<lparr>pipe_x := pipe_x p - PIPE_SPEED\<rparr>]\<rparr>;
          s2 = (if pipe_x (pipes s1 ! i) < - PIPE_WIDTH
                then (let (r, g) = random_gap (rng_bird s1)
                      in s1\<lparr>pipes := (pipes s1)[i := \<lparr>pipe_x = SCREEN_WIDTH, gap_y = r,
                                                        scored = False\<rparr>],
                             rng_bird := g\<rparr>)
                else s1)
      in if \<not> scored (pipes s2 ! i) \<and> pipe_x (pipes s2 ! i) + PIPE_WIDTH < BIRD_X_POS
         then (let s3 = s2\<lparr>score := score s2 + 1\<rparr>;
                   s4 = s3\<lparr>pipes := (pipes s3)[i := (pipes s3 ! i)\<lparr>scored := True\<rparr>]\<rparr>
               in if score s4 > highScore s4 then s4\<lparr>highScore := score s4\<rparr> else s4)
         else s2)"

text \<open>
  \<open>checkCollisions\<close>. The pipe loop returns at the first pipe the bird hits; \<open>is\<close> holds
  the indices still to be looked at.
\<close>

fun check_pipes :: "nat list \<Rightarrow> bird \<Rightarrow> bird" where
  "check_pipes [] s = s"
| "check_pipes (i # is) s =
     (if BIRD_X_POS + BIRD_WIDTH > pipe_x (pipes s ! i)
         \<and> BIRD_X_POS < pipe_x (pipes s ! i) + PIPE_WIDTH
      then (if bird_y s < of_int (gap_y (pipes s ! i) - PIPE_GAP_HEIGHT div 2)
               \<or> bird_y s + of_int BIRD_HEIGHT
                    > of_int (gap_y (pipes s ! i) + PIPE_GAP_HEIGHT div 2)
            then s\<lparr>gameState_bird := GAME_OVER\<rparr>
            else check_pipes is s)
      else check_pipes is s)"

definition checkCollisions :: "bird \<Rightarrow> bird" where
  "checkCollisions s =
     (if bird_y s < 0 \<or> bird_y s + of_int BIRD_HEIGHT > of_int (SCREEN_HEIGHT - GROUND_HEIGHT)
      then s\<lparr>gameState_bird := GAME_OVER\<rparr>
      else check_pipes [0..<NUM_PIPES] s)"

text \<open>
  \<open>updateGameLogic\<close> of the obstacle runner, one definition per commented section of
  the function; \<open>move_entities\<close> is everything before the call of \<open>checkCollisions\<close>.
\<close>

definition handle_input :: "buttons \<Rightarrow> bird \<Rightarrow> bird" where
  "handle_input b s =
     (let button_is_pressed = any_pressed b;
          s1 = (if button_is_pressed \<and> \<not> button_was_pressed s
                then s\<lparr>bird_y_velocity := FLAP_VELOCITY\<rparr> else s)
      in s1\<lparr>button_was_pressed := button_is_pressed\<rparr>)"

definition bird_physics :: "bird \<Rightarrow> bird" where
  "bird_physics s =
     (let s1 = s\<lparr>bird_y_velocity := bird_y_velocity s + GRAVITY\<rparr>
      in s1\<lparr>bird_y := bird_y s1 + bird_y_velocity s1\<rparr>)"

definition move_entities :: "buttons \<Rightarrow> bird \<Rightarrow> bird" where
  "move_entities b s = fold pipe_logic [0..<NUM_PIPES] (bird_physics (handle_input b s))"

definition updateGameLogic_bird :: "buttons \<Rightarrow> bird \<Rightarrow> bird" where
  "updateGameLogic_bird b s = checkCollisions (move_entities b s)"

definition loop_bird :: "buttons \<Rightarrow> (nat \<Rightarrow> buttons) \<Rightarrow> bird \<Rightarrow> bird option" where
  "loop_bird b w s =
     (case gameState_bird s of
        START_SCREEN \<Rightarrow>
          (if any_pressed b
           then (case wait_release w 0 of
                   None \<Rightarrow> None
                 | Some _ \<Rightarrow> Some (s\<lparr>gameState_bird := PLAYING\<rparr>))
           else Some s)
      | PLAYING \<Rightarrow> Some (updateGameLogic_bird b s)
      | GAME_OVER \<Rightarrow>
          (if any_pressed b
           then (case wait_release w 0 of
                   None \<Rightarrow> None
                 | Some _ \<Rightarrow> Some ((setupGame s)\<lparr>gameState_bird := PLAYING\<rparr>))
           else Some s))"

text \<open>
  \<open>setup\<close> of the obstacle runner: the variables are zero at power-up (\<open>highScore\<close> and
  \<open>button_was_pressed\<close> by their initialisers), \<open>randomSeed\<close> fixes the generator \<open>g\<close>,
  then \<open>setupGame\<close> runs.
\<close>

definition power_on_bird :: "rng \<Rightarrow> bird" where
  "power_on_bird g =
     \<lparr>gameState_bird = START_SCREEN,
      pipes = replicate NUM_PIPES \<lparr>pipe_x = 0, gap_y = 0, scored = False\<rparr>,
      bird_y = 0, bird_y_velocity = 0, score = 0, highScore = 0,
      button_was_pressed = False, rng_bird = g\<rparr>"

definition setup_bird :: "rng \<Rightarrow> bird" where
  "setup_bird g = setupGame (power_on_bird g)"

text \<open>The states a run of the obstacle runner passes through, one per loop iteration.\<close>

inductive bird_run :: "bird \<Rightarrow> bird \<Rightarrow> bool" where
  bird_run_refl: "bird_run s s"
| bird_run_step: "bird_run s t \<Longrightarrow> loop_bird b w t = Some u \<Longrightarrow> bird_run s u"

text \<open>
  \<open>ticks b s n\<close> is the state after \<open>n\<close> consecutive logic updates from \<open>s\<close>, the
  \<open>k\<close>-th of them reading the sample \<open>b k\<close>.
\<close>

fun ticks :: "(nat \<Rightarrow> buttons) \<Rightarrow> bird \<Rightarrow> nat \<Rightarrow> bird" where
  "ticks b s 0 = s"
| "ticks b s (Suc n) = updateGameLogic_bird (b n) (ticks b s n)"

subsection \<open>Predicates of the specification\<close>

text \<open>
  The words of the specification about a pipe, written as predicates. A pipe is recycled
  by the next update when its moved left edge is left of \<open>-PIPE_WIDTH\<close>; it is scored
  by the next update when it is not recycled, is not yet scored, and its moved right edge
  is left of the bird's position.
\<close>

definition recycles :: "Pipe \<Rightarrow> bool" where
  "recycles p = (pipe_x p - PIPE_SPEED < - PIPE_WIDTH)"

definition pipe_scores :: "Pipe \<Rightarrow> bool" where
  "pipe_scores p =
     (\<not> recycles p \<and> \<not> scored p \<and> pipe_x p - PIPE_SPEED + PIPE_WIDTH < BIRD_X_POS)"

text \<open>
  The bird's horizontal span overlaps the pipe's; the bird's vertical span, from \<open>y\<close> to
  \<open>y + BIRD_HEIGHT\<close>, lies within the pipe's gap.
\<close>

definition overlaps_bird :: "Pipe \<Rightarrow> bool" where
  "overlaps_bird p =
     (BIRD_X_POS + BIRD_WIDTH > pipe_x p \<and> BIRD_X_POS < pipe_x p + PIPE_WIDTH)"

definition inside_gap :: "real \<Rightarrow> Pipe \<Rightarrow> bool" where
  "inside_gap y p =
     (of_int (gap_y p - PIPE_GAP_HEIGHT div 2) \<le> y
      \<and> y + of_int BIRD_HEIGHT \<le> of_int (gap_y p + PIPE_GAP_HEIGHT div 2))"

text \<open>
  Three properties of the pipe array that every state of a run has (lemma
  \<open>bird_run_inv\<close> below): each gap centre lies in the band of the specification; the
  flag of a pipe is set exactly when its right edge is left of the bird's position; and
  the two pipes have even positions not left of \<open>-PIPE_WIDTH\<close>, the second either
  \<open>PIPE_SPACING\<close> right of the first or \<open>PIPE_SPACING + PIPE_SPEED\<close> left of it.
\<close>

definition gaps_in_band :: "Pipe list \<Rightarrow> bool" where
  "gaps_in_band ps =
     (\<forall>p\<in>set ps. PIPE_GAP_HEIGHT div 2 + 20 \<le> gap_y p
                 \<and> gap_y p \<le> SCREEN_HEIGHT - PIPE_GAP_HEIGHT div 2 - GROUND_HEIGHT - 20)"

definition flags_follow_position :: "Pipe list \<Rightarrow> bool" where
  "flags_follow_position ps = (\<forall>p\<in>set ps. scored p = (pipe_x p + PIPE_WIDTH < BIRD_X_POS))"

definition pipes_spaced :: "Pipe list \<Rightarrow> bool" where
  "pipes_spaced ps =
     (length ps = NUM_PIPES
      \<and> (\<forall>p\<in>set ps. even (pipe_x p) \<and> - PIPE_WIDTH \<le> pipe_x p)
      \<and> (pipe_x (ps ! 1) - pipe_x (ps ! 0) = PIPE_SPACING
          \<or> pipe_x (ps ! 0) - pipe_x (ps ! 1) = PIPE_SPACING + PIPE_SPEED))"

definition bird_inv :: "bird \<Rightarrow> bool" where
  "bird_inv s =
     (length (pipes s) = NUM_PIPES \<and> gaps_in_band (pipes s)
      \<and> flags_follow_position (pipes s) \<and> pipes_spaced (pipes s))"

text \<open>
  Events of a sequence of logic updates from \<open>s\<close>: update number \<open>k\<close> (from
  \<open>ticks b s k\<close> to \<open>ticks b s (Suc k)\<close>) recycles pipe \<open>i\<close>; update number \<open>k\<close> turns
  the flag of pipe \<open>i\<close> from false to true.
\<close>

definition recycles_at :: "(nat \<Rightarrow> buttons) \<Rightarrow> bird \<Rightarrow> nat \<Rightarrow> nat \<Rightarrow> bool" where
  "recycles_at b s i k = recycles (pipes (ticks b s k) ! i)"

definition scores_at :: "(nat \<Rightarrow> buttons) \<Rightarrow> bird \<Rightarrow> nat \<Rightarrow> nat \<Rightarrow> bool" where
  "scores_at b s i k =
     (\<not> scored (pipes (ticks b s k) ! i) \<and> scored (pipes (ticks b s (Suc k)) ! i))"

text \<open>
  The events of pipe \<open>i\<close> along \<open>n\<close> loop iterations from \<open>s\<close>, numbered from \<open>k\<close>
  on, iteration \<open>k\<close> reading the sample \<open>b k\<close> and every busy-wait polling the
  samples \<open>w\<close>: \<open>(k, Recycled)\<close> when iteration \<open>k\<close> is a logic update that recycles the
  pipe, \<open>(k, Raised)\<close> when iteration \<open>k\<close> turns the pipe's flag from false to true.
  Unlike \<open>ticks\<close>, the iterations are those of \<open>loop\<close>, so they include the end of a
  game and the restart.
\<close>

datatype flag_event = Raised | Recycled

fun flag_events ::
  "nat \<Rightarrow> (nat \<Rightarrow> buttons) \<Rightarrow> (nat \<Rightarrow> buttons) \<Rightarrow> bird \<Rightarrow> nat \<Rightarrow> nat
     \<Rightarrow> (nat \<times> flag_event) list" where
  "flag_events i b w s k 0 = []"
| "flag_events i b w s k (Suc n) =
     (case loop_bird (b k) w s of
        None \<Rightarrow> []
      | Some t \<Rightarrow>
          (if gameState_bird s = PLAYING \<and> recycles (pipes s ! i) then [(k, Recycled)] else [])
          @ (if \<not> scored (pipes s ! i) \<and> scored (pipes t ! i) then [(k, Raised)] else [])
          @ flag_events i b w t (k + 1) n)"

subsection \<open>Example states and inputs\<close>

text \<open>
  Generators: one that returns \<open>0, 1, 2, \<dots>\<close>, one that returns \<open>0\<close> forever, and one
  that returns \<open>0\<close> six times and \<open>1\<close> from then on. Switches: released at every
  sample, and the left one held at every sample.

  Two players of the obstacle runner, both using the left switch only. \<open>steady\<close> flaps
  in every 32nd logic update, from the first one on. \<open>flaps\<close>, given per loop iteration,
  starts the game in iteration 0 and flaps in every 32nd iteration from iteration 1 on;
  after iteration 332 it flaps in every second iteration, which takes the bird into the
  top of the screen; it restarts the game in iteration 341 and flaps in every 32nd
  iteration again from iteration 342 on.
\<close>

definition steady :: "nat \<Rightarrow> buttons" where
  "steady k = (k mod 32 = 0, False)"

definition flaps :: "nat \<Rightarrow> buttons" where
  "flaps k =
     (if k < 333 then k = 0 \<or> k mod 32 = 1
      else if k < 341 then odd k
      else k = 341 \<or> (k - 341) mod 32 = 1, False)"

definition zeros :: rng where
  "zeros = (\<lambda>n. 0)"

definition serve_source :: rng where
  "serve_source = (\<lambda>n. if n < 6 then 0 else 1)"

definition held :: "nat \<Rightarrow> buttons" where
  "held = (\<lambda>n. (True, False))"

definition counting :: rng where
  "counting = (\<lambda>n. n)"

definition released :: "nat \<Rightarrow> buttons" where
  "released = (\<lambda>n. (False, False))"

text \<open>
  Paddle-ball: the player needs one point and the ball is about to leave past the top
  edge; the ball has passed the player's paddle and is about to leave past the bottom
  edge (the state after 28 updates from the first serve of a game, with the left switch
  held, lemma \<open>missed_ball_reachable\<close>); the ball is about to cross the right wall.
\<close>

definition match_point :: pong where
  "match_point =
     \<lparr>gameState_pong = PLAYING, player_x = 120, ai_x = 0, ball_x = 200, ball_y = 1,
      ball_vx = 2, ball_vy = - 3, playerScore = 4, aiScore = 2, rng_pong = (\<lambda>n. 0)\<rparr>"

definition missed_ball :: pong where
  "missed_ball =
     \<lparr>gameState_pong = PLAYING, player_x = 0, ai_x = 170.4, ball_x = 216, ball_y = 169,
      ball_vx = 2, ball_vy = 3, playerScore = 0, aiScore = 0, rng_pong = (\<lambda>n. 1)\<rparr>"

definition wall_ball :: pong where
  "wall_ball =
     \<lparr>gameState_pong = PLAYING, player_x = 120, ai_x = 120, ball_x = 309, ball_y = 85,
      ball_vx = 3, ball_vy = 3, playerScore = 0, aiScore = 0, rng_pong = (\<lambda>n. 0)\<rparr>"

text \<open>
  Obstacle runner: the first pipe is one update away from being scored; the state in
  which the first game starts, with the generator that returns \<open>0\<close> forever; the bird is
  between the two halves of the first pipe; the bird is falling onto the ground with a
  switch held down (the state after 41 updates from the start of the first game, with
  the left switch held throughout, lemma \<open>falling_held_reachable\<close>).
\<close>

definition about_to_score :: bird where
  "about_to_score =
     \<lparr>gameState_bird = PLAYING,
      pipes = [\<lparr>pipe_x = 20, gap_y = 80, scored = False\<rparr>,
               \<lparr>pipe_x = 200, gap_y = 70, scored = False\<rparr>],
      bird_y = 60, bird_y_velocity = - 0.2, score = 3, highScore = 3,
      button_was_pressed = False, rng_bird = (\<lambda>n. 0)\<rparr>"

definition first_game :: bird where
  "first_game = (setup_bird zeros)\<lparr>gameState_bird := PLAYING\<rparr>"

definition in_the_gap :: bird where
  "in_the_gap =
     \<lparr>gameState_bird = PLAYING,
      pipes = [\<lparr>pipe_x = 70, gap_y = 80, scored = False\<rparr>,
               \<lparr>pipe_x = 250, gap_y = 70, scored = False\<rparr>],
      bird_y = 60, bird_y_velocity = - 0.2, score = 0, highScore = 0,
      button_was_pressed = False, rng_bird = (\<lambda>n. 0)\<rparr>"

definition falling_held :: bird where
  "falling_held =
     \<lparr>gameState_bird = PLAYING,
      pipes = [\<lparr>pipe_x = 238, gap_y = 60, scored = False\<rparr>,
               \<lparr>pipe_x = 418, gap_y = 60, scored = False\<rparr>],
      bird_y = 138.3, bird_y_velocity = 7.3, score = 0, highScore = 0,
      button_was_pressed = True, rng_bird = (\<lambda>n. 0)\<rparr>"

section \<open>Properties\<close>

subsection \<open>The busy-wait and the random source\<close>

lemma wait_release_returns:
  "\<not> any_pressed (w (n + k)) \<Longrightarrow> \<exists>m. wait_release w n = Some m"
proof (induction k arbitrary: n)
  case 0
  then show ?case by (subst wait_release.simps) simp
next
  case (Suc k)
  from Suc.prems have "\<not> any_pressed (w (Suc n + k))" by simp
  from Suc.IH[OF this] obtain m where "wait_release w (Suc n) = Some m" ..
  then show ?case by (subst wait_release.simps) auto
qed

lemma wait_release_Some:
  assumes "wait_release w n = Some m"
  shows "n \<le> m \<and> \<not> any_pressed (w m)"
  using assms
proof (rule wait_release.raw_induct[where P = "\<lambda>w n m. n \<le> m \<and> \<not> any_pressed (w m)", rotated])
  fix wr and v :: "nat \<Rightarrow> buttons" and i r
  assume IH: "\<And>w n y. wr w n = Some y \<Longrightarrow> n \<le> y \<and> \<not> any_pressed (w y)"
    and eq: "(if any_pressed (v i) then wr v (Suc i) else Some i) = Some r"
  show "i \<le> r \<and> \<not> any_pressed (v r)"
  proof (cases "any_pressed (v i)")
    case True
    with eq have "wr v (Suc i) = Some r" by simp
    from IH[OF this] show ?thesis by auto
  next
    case False
    with eq show ?thesis by simp
  qed
qed

lemma wait_release_never:
  "(\<forall>k. any_pressed (w k)) \<Longrightarrow> wait_release w n = None"
  using wait_release_Some[of w n] by (cases "wait_release w n") auto

lemma wait_release_released: "wait_release released 0 = Some 0"
  by (subst wait_release.simps) (simp add: released_def any_pressed_def left_pressed_def right_pressed_def)

lemma released_0: "\<not> any_pressed (released 0)"
  by (simp add: released_def any_pressed_def left_pressed_def right_pressed_def)

lemma held_pressed: "any_pressed (held n)" "held n = (True, False)"
  by (simp_all add: held_def any_pressed_def left_pressed_def)

lemma random1_range: "0 < n \<Longrightarrow> 0 \<le> fst (random1 n g) \<and> fst (random1 n g) < n"
  by (simp add: random1_def)

lemma random2_range:
  "lo < hi \<Longrightarrow> lo \<le> fst (random2 lo hi g) \<and> fst (random2 lo hi g) < hi"
  using random1_range[of "hi - lo" g]
  by (auto simp add: random2_def split: prod.splits)

lemma random_gap_range: "60 \<le> fst (random_gap g) \<and> fst (random_gap g) \<le> 99"
  by (auto simp add: random_gap_def random2_def random1_def split: prod.splits)

subsection \<open>Paddle-ball: the effect of each section of the update\<close>

lemma serveBall_fields:
  "gameState_pong (serveBall d s) = gameState_pong s"
  "player_x (serveBall d s) = player_x s"
  "ai_x (serveBall d s) = ai_x s"
  "playerScore (serveBall d s) = playerScore s"
  "aiScore (serveBall d s) = aiScore s"
  "ball_x (serveBall d s) = 160"
  "ball_y (serveBall d s) = 85"
  "ball_vy (serveBall d s) = of_int (3 * d)"
  by (simp_all add: serveBall_def split: prod.splits)

lemma serveBall_vx: "\<bar>ball_vx (serveBall d s)\<bar> = 2 \<or> \<bar>ball_vx (serveBall d s)\<bar> = 3"
proof -
  obtain m g1 where m: "random2 2 4 (rng_pong s) = (m, g1)" by (cases "random2 2 4 (rng_pong s)")
  with random2_range[of 2 4 "rng_pong s"] have "m = 2 \<or> m = 3" by auto
  then show ?thesis by (auto simp add: serveBall_def m split: prod.splits)
qed

lemma resetGame_fields:
  "gameState_pong (resetGame s) = gameState_pong s"
  "player_x (resetGame s) = 120"
  "ai_x (resetGame s) = 120"
  "playerScore (resetGame s) = 0"
  "aiScore (resetGame s) = 0"
  "ball_x (resetGame s) = 160"
  "ball_y (resetGame s) = 85"
  by (simp_all add: resetGame_def serveBall_fields split: prod.splits)

lemma resetGame_vx: "\<bar>ball_vx (resetGame s)\<bar> = 2 \<or> \<bar>ball_vx (resetGame s)\<bar> = 3"
  by (simp add: resetGame_def serveBall_vx split: prod.splits)

lemma resetGame_vy: "ball_vy (resetGame s) = 3 \<or> ball_vy (resetGame s) = - 3"
  by (simp add: resetGame_def serveBall_fields split: prod.splits)

lemma player_input_fields:
  "gameState_pong (player_input b s) = gameState_pong s"
  "ai_x (player_input b s) = ai_x s"
  "ball_x (player_input b s) = ball_x s"
  "ball_y (player_input b s) = ball_y s"
  "ball_vx (player_input b s) = ball_vx s"
  "ball_vy (player_input b s) = ball_vy s"
  "playerScore (player_input b s) = playerScore s"
  "aiScore (player_input b s) = aiScore s"
  "rng_pong (player_input b s) = rng_pong s"
  by (simp_all add: player_input_def Let_def)

lemma player_input_range:
  "0 \<le> player_x (player_input b s) \<and> player_x (player_input b s) \<le> 240"
  by (simp add: player_input_def Let_def)

lemma ai_logic_fields:
  "gameState_pong (ai_logic s) = gameState_pong s"
  "player_x (ai_logic s) = player_x s"
  "ball_x (ai_logic s) = ball_x s"
  "ball_y (ai_logic s) = ball_y s"
  "ball_vx (ai_logic s) = ball_vx s"
  "ball_vy (ai_logic s) = ball_vy s"
  "playerScore (ai_logic s) = playerScore s"
  "aiScore (ai_logic s) = aiScore s"
  "rng_pong (ai_logic s) = rng_pong s"
  by (simp_all add: ai_logic_def Let_def)

lemma ai_logic_range: "0 \<le> ai_x (ai_logic s) \<and> ai_x (ai_logic s) \<le> 240"
  by (simp add: ai_logic_def Let_def)

lemma ball_move_fields:
  "gameState_pong (ball_move s) = gameState_pong s"
  "player_x (ball_move s) = player_x s"
  "ai_x (ball_move s) = ai_x s"
  "ball_x (ball_move s) = ball_x s + ball_vx s"
  "ball_y (ball_move s) = ball_y s + ball_vy s"
  "ball_vx (ball_move s) = ball_vx s"
  "ball_vy (ball_move s) = ball_vy s"
  "playerScore (ball_move s) = playerScore s"
  "aiScore (ball_move s) = aiScore s"
  "rng_pong (ball_move s) = rng_pong s"
  by (simp_all add: ball_move_def Let_def)

lemma wall_collision_fields:
  "gameState_pong (wall_collision s) = gameState_pong s"
  "player_x (wall_collision s) = player_x s"
  "ai_x (wall_collision s) = ai_x s"
  "ball_x (wall_collision s) = ball_x s"
  "ball_y (wall_collision s) = ball_y s"
  "ball_vy (wall_collision s) = ball_vy s"
  "playerScore (wall_collision s) = playerScore s"
  "aiScore (wall_collision s) = aiScore s"
  "rng_pong (wall_collision s) = rng_pong s"
  by (simp_all add: wall_collision_def)

lemma wall_collision_vx:
  "ball_vx (wall_collision s) = (if ball_x s < 0 \<or> ball_x s > 310 then - ball_vx s else ball_vx s)"
  by (simp add: wall_collision_def)

lemma wall_collision_contact:
  "player_contact (wall_collision s) = player_contact s"
  "ai_contact (wall_collision s) = ai_contact s"
  by (simp_all add: player_contact_def ai_contact_def wall_collision_fields)

lemma paddle_collisions_fields:
  "gameState_pong (paddle_collisions s) = gameState_pong s"
  "player_x (paddle_collisions s) = player_x s"
  "ai_x (paddle_collisions s) = ai_x s"
  "ball_x (paddle_collisions s) = ball_x s"
  "ball_y (paddle_collisions s) = ball_y s"
  "playerScore (paddle_collisions s) = playerScore s"
  "aiScore (paddle_collisions s) = aiScore s"
  "rng_pong (paddle_collisions s) = rng_pong s"
  by (simp_all add: paddle_collisions_def Let_def)

lemma paddle_collisions_vy:
  "ball_vy (paddle_collisions s) =
     (if player_contact s \<or> ai_contact s then - ball_vy s else ball_vy s)"
  by (auto simp add: paddle_collisions_def Let_def player_contact_def ai_contact_def)

lemma paddle_collisions_vx:
  "ball_vx (paddle_collisions s) =
     (if player_contact s then ball_vx s + (ball_x s - (player_x s + 40)) / 10 else ball_vx s)"
  by (simp add: paddle_collisions_def Let_def)

lemma scoring_fields:
  "gameState_pong (scoring s) = gameState_pong s"
  "player_x (scoring s) = player_x s"
  "ai_x (scoring s) = ai_x s"
  by (simp_all add: scoring_def Let_def serveBall_fields)

lemma scoring_bottom:
  "ball_y s > 170 \<Longrightarrow> scoring s = serveBall (- 1) (s\<lparr>aiScore := aiScore s + 1\<rparr>)"
  by (simp add: scoring_def Let_def serveBall_fields)

lemma scoring_top:
  "ball_y s < 0 \<Longrightarrow> scoring s = serveBall 1 (s\<lparr>playerScore := playerScore s + 1\<rparr>)"
  by (simp add: scoring_def Let_def)

lemma scoring_none: "0 \<le> ball_y s \<Longrightarrow> ball_y s \<le> 170 \<Longrightarrow> scoring s = s"
  by (simp add: scoring_def Let_def)

lemma scoring_scores:
  "playerScore s \<le> playerScore (scoring s)" "aiScore s \<le> aiScore (scoring s)"
  by (simp_all add: scoring_def Let_def serveBall_fields)

lemma before_scoring_fields:
  "ball_y (paddle_collisions (wall_collision (ball_move (ai_logic (player_input b s)))))
     = ball_y s + ball_vy s"
  "aiScore (paddle_collisions (wall_collision (ball_move (ai_logic (player_input b s)))))
     = aiScore s"
  "playerScore (paddle_collisions (wall_collision (ball_move (ai_logic (player_input b s)))))
     = playerScore s"
  by (simp_all add: paddle_collisions_fields wall_collision_fields ball_move_fields
      ai_logic_fields player_input_fields)

lemma updateGameLogic_pong_gameState:
  "gameState_pong (updateGameLogic_pong b s) = gameState_pong s"
  by (simp add: updateGameLogic_pong_def scoring_fields paddle_collisions_fields
      wall_collision_fields ball_move_fields ai_logic_fields player_input_fields)

lemma updateGameLogic_pong_scores:
  "playerScore s \<le> playerScore (updateGameLogic_pong b s)"
  "aiScore s \<le> aiScore (updateGameLogic_pong b s)"
  using scoring_scores[of "paddle_collisions (wall_collision (ball_move (ai_logic (player_input b s))))"]
  by (simp_all add: updateGameLogic_pong_def before_scoring_fields)

subsection \<open>Paddle-ball: runs and the example states\<close>

lemmas pong_eval =
  updateGameLogic_pong_def player_input_def ai_logic_def
  ball_move_def wall_collision_def paddle_collisions_def player_contact_def ai_contact_def
  scoring_def serveBall_def random1_def random2_def left_pressed_def right_pressed_def Let_def

lemma match_point_tick:
  "playerScore (updateGameLogic_pong (False, False) match_point) = 5"
  by (simp add: match_point_def updateGameLogic_pong_def player_input_def ai_logic_def
      ball_move_def wall_collision_def paddle_collisions_def player_contact_def ai_contact_def
      scoring_def serveBall_def random1_def random2_def left_pressed_def right_pressed_def Let_def)

lemma pong_run_trans: "pong_run t u \<Longrightarrow> pong_run s t \<Longrightarrow> pong_run s u"
  by (induction rule: pong_run.induct) (auto intro: pong_run_step)

lemma pong_run_session:
  assumes "pong_run (setup_pong g) s"
  shows "(gameState_pong s = PLAYING \<longrightarrow>
            playerScore s < WINNING_SCORE \<and> aiScore s < WINNING_SCORE)
         \<and> (gameState_pong s = GAME_OVER \<longrightarrow>
            playerScore s \<ge> WINNING_SCORE \<or> aiScore s \<ge> WINNING_SCORE)"
  using assms
proof (induction "setup_pong g" s rule: pong_run.induct)
  case pong_run_refl
  show ?case by (simp add: setup_pong_def)
next
  case (pong_run_step t b w u)
  show ?case
  proof (cases "gameState_pong t")
    case START_SCREEN
    with pong_run_step show ?thesis
      by (auto simp add: loop_pong_def resetGame_fields split: if_splits option.splits)
  next
    case PLAYING
    with pong_run_step show ?thesis
      by (auto simp add: loop_pong_def Let_def updateGameLogic_pong_gameState split: if_splits)
  next
    case GAME_OVER
    with pong_run_step show ?thesis
      by (auto simp add: loop_pong_def resetGame_fields split: if_splits option.splits)
  qed
qed

lemma ticks_pong_numeral:
  "ticks_pong b s (numeral n)
     = updateGameLogic_pong (b (pred_numeral n)) (ticks_pong b s (pred_numeral n))"
  by (simp add: numeral_eq_Suc)

lemma ticks_pong_Suc_0: "ticks_pong b s (Suc 0) = updateGameLogic_pong (b 0) s"
  by simp

lemma ticks_pong_state: "gameState_pong (ticks_pong b s n) = gameState_pong s"
  by (induction n) (simp_all add: updateGameLogic_pong_gameState)

lemma ticks_pong_run:
  assumes "gameState_pong s = PLAYING"
    and "playerScore (ticks_pong b s n) < WINNING_SCORE"
    and "aiScore (ticks_pong b s n) < WINNING_SCORE"
  shows "pong_run s (ticks_pong b s n)"
  using assms(2,3)
proof (induction n)
  case 0
  show ?case by (simp add: pong_run_refl)
next
  case (Suc n)
  let ?t = "ticks_pong b s n"
  from Suc.prems updateGameLogic_pong_scores[of ?t "b n"]
  have "playerScore ?t < WINNING_SCORE" "aiScore ?t < WINNING_SCORE" by simp_all
  from Suc.IH[OF this] have run: "pong_run s ?t" .
  have "loop_pong (b n) released ?t = Some (ticks_pong b s (Suc n))"
    using Suc.prems assms(1) by (simp add: loop_pong_def ticks_pong_state Let_def)
  from pong_run_step[OF run this] show ?case .
qed

lemma start_pong:
  "(resetGame (setup_pong serve_source))\<lparr>gameState_pong := PLAYING\<rparr> =
     \<lparr>gameState_pong = PLAYING, player_x = 120, ai_x = 120, ball_x = 160, ball_y = 85,
      ball_vx = 2, ball_vy = 3, playerScore = 0, aiScore = 0, rng_pong = (\<lambda>n. 1)\<rparr>"
  by (simp add: setup_pong_def power_on_pong_def resetGame_def serveBall_def random1_def
      random2_def serve_source_def Let_def)

lemma missed_ball_28:
  "ticks_pong held ((resetGame (setup_pong serve_source))\<lparr>gameState_pong := PLAYING\<rparr>) 28
     = missed_ball"
  unfolding start_pong
  by (simp add: ticks_pong_numeral ticks_pong_Suc_0 held_pressed pong_eval missed_ball_def
      del: ticks_pong.simps(2))

lemma missed_ball_reachable: "pong_run (setup_pong serve_source) missed_ball"
proof -
  let ?s = "(resetGame (setup_pong serve_source))\<lparr>gameState_pong := PLAYING\<rparr>"
  have "loop_pong (True, False) released (setup_pong serve_source) = Some ?s"
    by (simp add: loop_pong_def setup_pong_def wait_release_released
        any_pressed_def left_pressed_def)
  from pong_run_step[OF pong_run_refl this] have start: "pong_run (setup_pong serve_source) ?s" .
  have "pong_run ?s (ticks_pong held ?s 28)"
    by (rule ticks_pong_run) (simp_all add: missed_ball_28, simp_all add: missed_ball_def)
  then have "pong_run ?s missed_ball" by (simp only: missed_ball_28)
  from pong_run_trans[OF this start] show ?thesis .
qed

subsection \<open>Paddle-ball: the claims\<close>

text \<open>
  Claim C5. Paddle-ball: whatever the state before the update and whichever switches are
  pressed, after \<open>updateGameLogic\<close> the player's paddle and the AI's paddle both have
  their left edge within \<open>[0, SCREEN_WIDTH - PADDLE_WIDTH]\<close>, that is \<open>[0, 240]\<close>. The
  statement has no hypothesis on the state, so it holds after any number of updates with
  a switch held.
\<close>

theorem paddles_within_screen:
  "0 \<le> player_x (updateGameLogic_pong b s)
   \<and> player_x (updateGameLogic_pong b s) \<le> of_int (SCREEN_WIDTH - PADDLE_WIDTH)
   \<and> 0 \<le> ai_x (updateGameLogic_pong b s)
   \<and> ai_x (updateGameLogic_pong b s) \<le> of_int (SCREEN_WIDTH - PADDLE_WIDTH)"
  using player_input_range[of b s] ai_logic_range[of "player_input b s"]
  by (simp add: updateGameLogic_pong_def scoring_fields paddle_collisions_fields
      wall_collision_fields ball_move_fields ai_logic_fields)

text \<open>
  Claim C3. Paddle-ball: a loop iteration in the state \<open>PLAYING\<close> runs
  \<open>updateGameLogic\<close> and then moves to \<open>GAME_OVER\<close> exactly when one of the two
  scores, as the update left them, has reached \<open>WINNING_SCORE\<close>; otherwise the session
  stays in \<open>PLAYING\<close>. Along a run from power-up both scores are below
  \<open>WINNING_SCORE\<close> whenever the session is in \<open>PLAYING\<close> (lemma \<open>pong_run_session\<close>), so
  no game ends before a score reaches \<open>WINNING_SCORE\<close>.
\<close>

theorem game_over_at_winning_score:
  assumes "gameState_pong s = PLAYING"
  shows "\<exists>t. loop_pong b w s = Some t
           \<and> playerScore t = playerScore (updateGameLogic_pong b s)
           \<and> aiScore t = aiScore (updateGameLogic_pong b s)
           \<and> gameState_pong t =
               (if playerScore t \<ge> WINNING_SCORE \<or> aiScore t \<ge> WINNING_SCORE
                then GAME_OVER else PLAYING)"
  using assms
  by (simp add: loop_pong_def Let_def updateGameLogic_pong_gameState)

text \<open>
  At match point the player scores the fifth point and the iteration ends the game.
\<close>

theorem game_over_at_winning_score_witness:
  "gameState_pong match_point = PLAYING
   \<and> (\<exists>t. loop_pong (False, False) released match_point = Some t
           \<and> playerScore t = 5 \<and> gameState_pong t = GAME_OVER)"
proof -
  have h: "gameState_pong match_point = PLAYING" by (simp add: match_point_def)
  from game_over_at_winning_score[OF h, of "(False, False)" released]
  show ?thesis using h by (auto simp add: match_point_tick)
qed

text \<open>
  Claim C6. Paddle-ball: in one update at most one side scores. When the moved ball is
  below the bottom edge (\<open>y > SCREEN_HEIGHT\<close>) the AI's score goes up by one, the
  player's score is unchanged and the ball is served towards the AI (\<open>vy = -3\<close>); when it
  is above the top edge (\<open>y < 0\<close>) the player's score goes up by one, the AI's score is
  unchanged and the ball is served towards the player (\<open>vy = 3\<close>); otherwise no score
  changes. A serve puts the ball at the centre of the screen with a horizontal speed of
  magnitude 2 or 3.
\<close>

theorem one_scoring_event_per_tick:
  "if ball_y s + ball_vy s > of_int SCREEN_HEIGHT
   then aiScore (updateGameLogic_pong b s) = aiScore s + 1
        \<and> playerScore (updateGameLogic_pong b s) = playerScore s
        \<and> ball_x (updateGameLogic_pong b s) = of_int (SCREEN_WIDTH div 2)
        \<and> ball_y (updateGameLogic_pong b s) = of_int (SCREEN_HEIGHT div 2)
        \<and> (\<bar>ball_vx (updateGameLogic_pong b s)\<bar> = 2 \<or> \<bar>ball_vx (updateGameLogic_pong b s)\<bar> = 3)
        \<and> ball_vy (updateGameLogic_pong b s) = - 3
   else if ball_y s + ball_vy s < 0
   then playerScore (updateGameLogic_pong b s) = playerScore s + 1
        \<and> aiScore (updateGameLogic_pong b s) = aiScore s
        \<and> ball_x (updateGameLogic_pong b s) = of_int (SCREEN_WIDTH div 2)
        \<and> ball_y (updateGameLogic_pong b s) = of_int (SCREEN_HEIGHT div 2)
        \<and> (\<bar>ball_vx (updateGameLogic_pong b s)\<bar> = 2 \<or> \<bar>ball_vx (updateGameLogic_pong b s)\<bar> = 3)
        \<and> ball_vy (updateGameLogic_pong b s) = 3
   else playerScore (updateGameLogic_pong b s) = playerScore s
        \<and> aiScore (updateGameLogic_pong b s) = aiScore s"
proof -
  let ?m = "paddle_collisions (wall_collision (ball_move (ai_logic (player_input b s))))"
  have upd: "updateGameLogic_pong b s = scoring ?m" by (simp add: updateGameLogic_pong_def)
  consider (bottom) "ball_y ?m > 170" | (top) "ball_y ?m < 0"
    | (inside) "0 \<le> ball_y ?m" "ball_y ?m \<le> 170" by linarith
  then show ?thesis
  proof cases
    case bottom
    from scoring_bottom[OF this] bottom serveBall_vx[of "- 1" "?m\<lparr>aiScore := aiScore ?m + 1\<rparr>"]
    show ?thesis by (simp add: upd serveBall_fields before_scoring_fields)
  next
    case top
    from scoring_top[OF this] top serveBall_vx[of 1 "?m\<lparr>playerScore := playerScore ?m + 1\<rparr>"]
    show ?thesis by (simp add: upd serveBall_fields before_scoring_fields)
  next
    case inside
    from scoring_none[OF this] inside
    show ?thesis by (simp add: upd before_scoring_fields)
  qed
qed

text \<open>At match point the ball leaves past the top edge and only the player scores.\<close>

theorem one_scoring_event_per_tick_witness:
  "ball_y match_point + ball_vy match_point < 0
   \<and> playerScore (updateGameLogic_pong (False, False) match_point) = 5
   \<and> aiScore (updateGameLogic_pong (False, False) match_point) = 2
   \<and> ball_vy (updateGameLogic_pong (False, False) match_point) = 3"
  using one_scoring_event_per_tick[of match_point "(False, False)"]
  by (simp add: match_point_def)




subsection \<open>Obstacle runner: the effect of each function\<close>

lemma upt_NUM_PIPES: "[0..<NUM_PIPES] = [0, 1]"
  by (simp add: numeral_2_eq_2)

lemma upt_two [simp]: "[0..<2] = [0, Suc 0]"
  by (simp add: numeral_2_eq_2)

lemma replicate_two [simp]: "replicate 2 v = [v, v]"
  by (simp add: numeral_2_eq_2)

lemma two_pipes: "length ps = NUM_PIPES \<Longrightarrow> \<exists>p q. ps = [p, q]"
  by (cases ps; cases "tl ps") auto

lemma ball_two_pipes:
  assumes "length ps = NUM_PIPES"
  shows "(\<forall>p\<in>set ps. P p) \<longleftrightarrow> P (ps ! 0) \<and> P (ps ! 1)"
proof -
  from two_pipes[OF assms] obtain p q where "ps = [p, q]" by blast
  then show ?thesis by simp
qed

lemma set_two_pipes:
  assumes "length ps = NUM_PIPES"
  shows "(\<exists>i\<in>set [0..<NUM_PIPES]. P (ps ! i)) \<longleftrightarrow> (\<exists>p\<in>set ps. P p)"
proof -
  from two_pipes[OF assms] obtain p q where "ps = [p, q]" by blast
  then show ?thesis by (simp add: upt_NUM_PIPES)
qed

lemma pipe_logic_fields:
  "gameState_bird (pipe_logic i s) = gameState_bird s"
  "bird_y (pipe_logic i s) = bird_y s"
  "bird_y_velocity (pipe_logic i s) = bird_y_velocity s"
  "button_was_pressed (pipe_logic i s) = button_was_pressed s"
  "length (pipes (pipe_logic i s)) = length (pipes s)"
  by (simp_all add: pipe_logic_def Let_def split: prod.splits)

lemma pipe_logic_other:
  "j \<noteq> i \<Longrightarrow> pipes (pipe_logic i s) ! j = pipes s ! j"
  by (simp add: pipe_logic_def Let_def split: prod.splits)

lemma pipe_logic_pipe:
  assumes "i < length (pipes s)"
  shows "pipe_x (pipes (pipe_logic i s) ! i) =
           (if recycles (pipes s ! i) then SCREEN_WIDTH else pipe_x (pipes s ! i) - PIPE_SPEED)"
    and "scored (pipes (pipe_logic i s) ! i) =
           (\<not> recycles (pipes s ! i)
            \<and> (scored (pipes s ! i) \<or> pipe_x (pipes s ! i) - PIPE_SPEED + PIPE_WIDTH < BIRD_X_POS))"
    and "gap_y (pipes (pipe_logic i s) ! i) =
           (if recycles (pipes s ! i) then fst (random_gap (rng_bird s)) else gap_y (pipes s ! i))"
  using assms
  by (auto simp add: pipe_logic_def Let_def recycles_def split: prod.splits)

lemma pipe_logic_score:
  assumes "i < length (pipes s)"
  shows "score (pipe_logic i s) = score s + (if pipe_scores (pipes s ! i) then 1 else 0)"
    and "highScore (pipe_logic i s) =
           (if pipe_scores (pipes s ! i) then max (highScore s) (score s + 1) else highScore s)"
  using assms
  by (auto simp add: pipe_logic_def Let_def recycles_def pipe_scores_def split: prod.splits)

lemma pipe_logic_highScore:
  "(score (pipe_logic i s) = score s \<and> highScore (pipe_logic i s) = highScore s)
   \<or> (score (pipe_logic i s) = score s + 1
       \<and> highScore (pipe_logic i s) = max (highScore s) (score s + 1))"
  by (auto simp add: pipe_logic_def Let_def split: prod.splits)

lemma setupGame_fields:
  "gameState_bird (setupGame s) = gameState_bird s"
  "highScore (setupGame s) = highScore s"
  "button_was_pressed (setupGame s) = button_was_pressed s"
  "bird_y (setupGame s) = 85"
  "bird_y_velocity (setupGame s) = 0"
  "score (setupGame s) = 0"
  "length (pipes (setupGame s)) = length (pipes s)"
  by (simp_all add: setupGame_def upt_NUM_PIPES setup_pipe_def split: prod.splits)

lemma setupGame_pipes:
  assumes "length (pipes s) = NUM_PIPES"
  shows "\<exists>r0 r1. pipes (setupGame s) =
           [\<lparr>pipe_x = 320, gap_y = r0, scored = False\<rparr>, \<lparr>pipe_x = 500, gap_y = r1, scored = False\<rparr>]
           \<and> 60 \<le> r0 \<and> r0 \<le> 99 \<and> 60 \<le> r1 \<and> r1 \<le> 99"
proof -
  from two_pipes[OF assms] obtain p q where ps: "pipes s = [p, q]" by blast
  obtain r0 g0 where d0: "random_gap (rng_bird s) = (r0, g0)" by (cases "random_gap (rng_bird s)")
  obtain r1 g1 where d1: "random_gap g0 = (r1, g1)" by (cases "random_gap g0")
  from random_gap_range[of "rng_bird s"] d0 have "60 \<le> r0 \<and> r0 \<le> 99" by simp
  moreover from random_gap_range[of g0] d1 have "60 \<le> r1 \<and> r1 \<le> 99" by simp
  moreover have "pipes (setupGame s) =
      [\<lparr>pipe_x = 320, gap_y = r0, scored = False\<rparr>, \<lparr>pipe_x = 500, gap_y = r1, scored = False\<rparr>]"
    by (simp add: setupGame_def upt_NUM_PIPES setup_pipe_def ps d0 d1)
  ultimately show ?thesis by blast
qed

lemma handle_input_fields:
  "gameState_bird (handle_input b s) = gameState_bird s"
  "pipes (handle_input b s) = pipes s"
  "bird_y (handle_input b s) = bird_y s"
  "score (handle_input b s) = score s"
  "highScore (handle_input b s) = highScore s"
  "rng_bird (handle_input b s) = rng_bird s"
  "button_was_pressed (handle_input b s) = any_pressed b"
  "bird_y_velocity (handle_input b s) =
     (if any_pressed b \<and> \<not> button_was_pressed s then FLAP_VELOCITY else bird_y_velocity s)"
  by (simp_all add: handle_input_def Let_def)

lemma bird_physics_fields:
  "gameState_bird (bird_physics s) = gameState_bird s"
  "pipes (bird_physics s) = pipes s"
  "score (bird_physics s) = score s"
  "highScore (bird_physics s) = highScore s"
  "rng_bird (bird_physics s) = rng_bird s"
  "button_was_pressed (bird_physics s) = button_was_pressed s"
  "bird_y_velocity (bird_physics s) = bird_y_velocity s + GRAVITY"
  "bird_y (bird_physics s) = bird_y s + (bird_y_velocity s + GRAVITY)"
  by (simp_all add: bird_physics_def Let_def)

lemma move_entities_unfold:
  "move_entities b s = pipe_logic 1 (pipe_logic 0 (bird_physics (handle_input b s)))"
  by (simp add: move_entities_def upt_NUM_PIPES)

lemma move_entities_fields:
  "gameState_bird (move_entities b s) = gameState_bird s"
  "button_was_pressed (move_entities b s) = any_pressed b"
  "bird_y_velocity (move_entities b s) =
     (if any_pressed b \<and> \<not> button_was_pressed s then FLAP_VELOCITY else bird_y_velocity s) + GRAVITY"
  "bird_y (move_entities b s) = bird_y s + bird_y_velocity (move_entities b s)"
  "length (pipes (move_entities b s)) = length (pipes s)"
  by (simp_all add: move_entities_unfold pipe_logic_fields bird_physics_fields handle_input_fields)

lemma two_steps_pipe:
  assumes "length (pipes s) = NUM_PIPES" and "i < NUM_PIPES"
  shows "pipe_x (pipes (pipe_logic 1 (pipe_logic 0 s)) ! i) =
           (if recycles (pipes s ! i) then SCREEN_WIDTH else pipe_x (pipes s ! i) - PIPE_SPEED)"
    and "scored (pipes (pipe_logic 1 (pipe_logic 0 s)) ! i) =
           (\<not> recycles (pipes s ! i)
            \<and> (scored (pipes s ! i) \<or> pipe_x (pipes s ! i) - PIPE_SPEED + PIPE_WIDTH < BIRD_X_POS))"
    and "\<not> recycles (pipes s ! i) \<Longrightarrow>
           gap_y (pipes (pipe_logic 1 (pipe_logic 0 s)) ! i) = gap_y (pipes s ! i)"
    and "recycles (pipes s ! i) \<Longrightarrow>
           60 \<le> gap_y (pipes (pipe_logic 1 (pipe_logic 0 s)) ! i)
           \<and> gap_y (pipes (pipe_logic 1 (pipe_logic 0 s)) ! i) \<le> 99"
proof -
  from assms(2) consider "i = 0" | "i = 1" by (auto simp add: less_2_cases_iff)
  note cases_i = this
  have l0: "0 < length (pipes s)" "1 < length (pipes s)" using assms(1) by simp_all
  have l1: "1 < length (pipes (pipe_logic 0 s))" using l0 by (simp add: pipe_logic_fields)
  have p1: "pipes (pipe_logic 0 s) ! 1 = pipes s ! 1"
    by (simp add: pipe_logic_other)
  have p0: "pipes (pipe_logic 1 (pipe_logic 0 s)) ! 0 = pipes (pipe_logic 0 s) ! 0"
    by (simp add: pipe_logic_other)
  note facts = p0 p1 pipe_logic_pipe[OF l0(1)] pipe_logic_pipe[OF l1]
  show "pipe_x (pipes (pipe_logic 1 (pipe_logic 0 s)) ! i) =
           (if recycles (pipes s ! i) then SCREEN_WIDTH else pipe_x (pipes s ! i) - PIPE_SPEED)"
    using cases_i by cases (simp_all only: facts)
  show "scored (pipes (pipe_logic 1 (pipe_logic 0 s)) ! i) =
           (\<not> recycles (pipes s ! i)
            \<and> (scored (pipes s ! i) \<or> pipe_x (pipes s ! i) - PIPE_SPEED + PIPE_WIDTH < BIRD_X_POS))"
    using cases_i by cases (simp_all only: facts)
  show "\<not> recycles (pipes s ! i) \<Longrightarrow>
           gap_y (pipes (pipe_logic 1 (pipe_logic 0 s)) ! i) = gap_y (pipes s ! i)"
    using cases_i by cases (simp_all only: facts if_False)
  show "recycles (pipes s ! i) \<Longrightarrow>
           60 \<le> gap_y (pipes (pipe_logic 1 (pipe_logic 0 s)) ! i)
           \<and> gap_y (pipes (pipe_logic 1 (pipe_logic 0 s)) ! i) \<le> 99"
    using cases_i by cases (simp_all only: facts if_True random_gap_range)
qed

lemma two_steps_score:
  assumes "length (pipes s) = NUM_PIPES"
  shows "score (pipe_logic 1 (pipe_logic 0 s)) =
           score s + (if pipe_scores (pipes s ! 0) then 1 else 0)
                   + (if pipe_scores (pipes s ! 1) then 1 else 0)"
    and "highScore (pipe_logic 1 (pipe_logic 0 s)) =
           (if score (pipe_logic 1 (pipe_logic 0 s)) > score s
            then max (highScore s) (score (pipe_logic 1 (pipe_logic 0 s))) else highScore s)"
proof -
  have l0: "0 < length (pipes s)" "1 < length (pipes s)" using assms(1) by simp_all
  have l1: "1 < length (pipes (pipe_logic 0 s))" using l0 by (simp add: pipe_logic_fields)
  have p1: "pipes (pipe_logic 0 s) ! 1 = pipes s ! 1"
    by (simp add: pipe_logic_other)
  note facts = p1 pipe_logic_score[OF l0(1)] pipe_logic_score[OF l1]
  show sc: "score (pipe_logic 1 (pipe_logic 0 s)) =
           score s + (if pipe_scores (pipes s ! 0) then 1 else 0)
                   + (if pipe_scores (pipes s ! 1) then 1 else 0)"
    by (simp only: facts)
  show "highScore (pipe_logic 1 (pipe_logic 0 s)) =
           (if score (pipe_logic 1 (pipe_logic 0 s)) > score s
            then max (highScore s) (score (pipe_logic 1 (pipe_logic 0 s))) else highScore s)"
    unfolding sc by (auto simp add: facts simp del: One_nat_def)
qed

lemma move_entities_pipe:
  assumes "length (pipes s) = NUM_PIPES" and "i < NUM_PIPES"
  shows "pipe_x (pipes (move_entities b s) ! i) =
           (if recycles (pipes s ! i) then SCREEN_WIDTH else pipe_x (pipes s ! i) - PIPE_SPEED)"
    and "scored (pipes (move_entities b s) ! i) =
           (\<not> recycles (pipes s ! i)
            \<and> (scored (pipes s ! i) \<or> pipe_x (pipes s ! i) - PIPE_SPEED + PIPE_WIDTH < BIRD_X_POS))"
    and "\<not> recycles (pipes s ! i) \<Longrightarrow> gap_y (pipes (move_entities b s) ! i) = gap_y (pipes s ! i)"
    and "recycles (pipes s ! i) \<Longrightarrow>
           60 \<le> gap_y (pipes (move_entities b s) ! i) \<and> gap_y (pipes (move_entities b s) ! i) \<le> 99"
  using two_steps_pipe[of "bird_physics (handle_input b s)" i] assms
  by (simp_all add: move_entities_unfold bird_physics_fields handle_input_fields del: One_nat_def)

lemma move_entities_score:
  assumes "length (pipes s) = NUM_PIPES"
  shows "score (move_entities b s) =
           score s + (if pipe_scores (pipes s ! 0) then 1 else 0)
                   + (if pipe_scores (pipes s ! 1) then 1 else 0)"
    and "highScore (move_entities b s) =
           (if score (move_entities b s) > score s
            then max (highScore s) (score (move_entities b s)) else highScore s)"
  using two_steps_score[of "bird_physics (handle_input b s)"] assms
  by (simp_all add: move_entities_unfold bird_physics_fields handle_input_fields del: One_nat_def)

lemma move_entities_highScore:
  "(score (move_entities b s) = score s \<and> highScore (move_entities b s) = highScore s)
   \<or> (score s < score (move_entities b s)
       \<and> highScore (move_entities b s) = max (highScore s) (score (move_entities b s)))"
proof -
  let ?s0 = "bird_physics (handle_input b s)"
  have s0: "score ?s0 = score s" "highScore ?s0 = highScore s"
    by (simp_all add: bird_physics_fields handle_input_fields)
  from pipe_logic_highScore[of 0 ?s0] pipe_logic_highScore[of 1 "pipe_logic 0 ?s0"]
  show ?thesis unfolding move_entities_unfold s0 by (auto simp del: One_nat_def)
qed

lemma check_pipes_cases:
  "check_pipes is s = s \<or> check_pipes is s = s\<lparr>gameState_bird := GAME_OVER\<rparr>"
  by (induction "is") auto

lemma check_pipes_state:
  "gameState_bird (check_pipes is s) = GAME_OVER \<longleftrightarrow>
     gameState_bird s = GAME_OVER
     \<or> (\<exists>i\<in>set is. overlaps_bird (pipes s ! i) \<and> \<not> inside_gap (bird_y s) (pipes s ! i))"
  by (induction "is") (auto simp add: overlaps_bird_def inside_gap_def)

lemma checkCollisions_cases:
  "checkCollisions s = s \<or> checkCollisions s = s\<lparr>gameState_bird := GAME_OVER\<rparr>"
  using check_pipes_cases[of "[0..<NUM_PIPES]" s] by (auto simp add: checkCollisions_def)

lemma checkCollisions_fields:
  "pipes (checkCollisions s) = pipes s"
  "bird_y (checkCollisions s) = bird_y s"
  "bird_y_velocity (checkCollisions s) = bird_y_velocity s"
  "score (checkCollisions s) = score s"
  "highScore (checkCollisions s) = highScore s"
  "button_was_pressed (checkCollisions s) = button_was_pressed s"
  "rng_bird (checkCollisions s) = rng_bird s"
  using checkCollisions_cases[of s] by auto

lemma checkCollisions_state:
  "gameState_bird (checkCollisions s) = gameState_bird s
   \<or> gameState_bird (checkCollisions s) = GAME_OVER"
  using checkCollisions_cases[of s] by auto

lemma updateGameLogic_bird_fields:
  "pipes (updateGameLogic_bird b s) = pipes (move_entities b s)"
  "score (updateGameLogic_bird b s) = score (move_entities b s)"
  "highScore (updateGameLogic_bird b s) = highScore (move_entities b s)"
  "bird_y (updateGameLogic_bird b s) = bird_y (move_entities b s)"
  "bird_y_velocity (updateGameLogic_bird b s) = bird_y_velocity (move_entities b s)"
  "button_was_pressed (updateGameLogic_bird b s) = any_pressed b"
  "length (pipes (updateGameLogic_bird b s)) = length (pipes s)"
  by (simp_all add: updateGameLogic_bird_def checkCollisions_fields move_entities_fields)

lemma updateGameLogic_bird_state:
  "gameState_bird (updateGameLogic_bird b s) = gameState_bird s
   \<or> gameState_bird (updateGameLogic_bird b s) = GAME_OVER"
  using checkCollisions_state[of "move_entities b s"]
  by (simp add: updateGameLogic_bird_def move_entities_fields)

lemma loop_bird_playing:
  "gameState_bird s = PLAYING \<Longrightarrow> loop_bird b w s = Some (updateGameLogic_bird b s)"
  by (simp add: loop_bird_def)

lemma loop_bird_restart:
  assumes "gameState_bird s = GAME_OVER" and "any_pressed b" and "loop_bird b w s = Some t"
  shows "t = (setupGame s)\<lparr>gameState_bird := PLAYING\<rparr>"
  using assms by (simp add: loop_bird_def split: option.splits)

lemma loop_bird_highScore:
  assumes "loop_bird b w s = Some t"
  shows "highScore s \<le> highScore t"
proof (cases "gameState_bird s")
  case START_SCREEN
  with assms show ?thesis by (auto simp add: loop_bird_def split: if_splits option.splits)
next
  case PLAYING
  with assms move_entities_highScore[of b s] show ?thesis
    by (auto simp add: loop_bird_def updateGameLogic_bird_fields)
next
  case GAME_OVER
  with assms show ?thesis
    by (auto simp add: loop_bird_def setupGame_fields split: if_splits option.splits)
qed

lemma setup_bird_state: "gameState_bird (setup_bird g) = START_SCREEN"
  by (simp add: setup_bird_def setupGame_fields power_on_bird_def)

lemma setup_bird_fields:
  "score (setup_bird g) = 0"
  "bird_y (setup_bird g) = 85"
  "bird_y_velocity (setup_bird g) = 0"
  "highScore (setup_bird g) = 0"
  "button_was_pressed (setup_bird g) = False"
  by (simp_all add: setup_bird_def setupGame_fields power_on_bird_def)

lemma setup_bird_pipes:
  "map pipe_x (pipes (setup_bird g)) = [320, 500]"
  "map scored (pipes (setup_bird g)) = [False, False]"
  using setupGame_pipes[of "power_on_bird g"]
  by (auto simp add: setup_bird_def power_on_bird_def)

subsection \<open>Obstacle runner: what every state of a run satisfies\<close>

lemma gaps_in_band_step:
  assumes "length (pipes s) = NUM_PIPES" and "gaps_in_band (pipes s)"
  shows "gaps_in_band (pipes (move_entities b s))"
proof -
  have len: "length (pipes (move_entities b s)) = NUM_PIPES"
    using assms(1) by (simp add: move_entities_fields)
  have "60 \<le> gap_y (pipes (move_entities b s) ! i) \<and> gap_y (pipes (move_entities b s) ! i) \<le> 100"
    if "i < NUM_PIPES" for i
  proof (cases "recycles (pipes s ! i)")
    case True
    from move_entities_pipe(4)[OF assms(1) that True, of b] show ?thesis by simp
  next
    case False
    from assms have "60 \<le> gap_y (pipes s ! i) \<and> gap_y (pipes s ! i) \<le> 100"
      using that by (simp add: gaps_in_band_def)
    with move_entities_pipe(3)[OF assms(1) that False, of b] show ?thesis by simp
  qed
  from this[of 0] this[of 1] show ?thesis
    unfolding gaps_in_band_def ball_two_pipes[OF len] by simp
qed

lemma flags_follow_position_step:
  assumes "length (pipes s) = NUM_PIPES" and "flags_follow_position (pipes s)"
  shows "flags_follow_position (pipes (move_entities b s))"
proof -
  have len: "length (pipes (move_entities b s)) = NUM_PIPES"
    using assms(1) by (simp add: move_entities_fields)
  have "scored (pipes (move_entities b s) ! i) = (pipe_x (pipes (move_entities b s) ! i) + 40 < 60)"
    if "i < NUM_PIPES" for i
  proof -
    from assms that have "scored (pipes s ! i) = (pipe_x (pipes s ! i) + 40 < 60)"
      by (simp add: flags_follow_position_def)
    then show ?thesis
      by (auto simp add: move_entities_pipe[OF assms(1) that] recycles_def)
  qed
  from this[of 0] this[of 1] show ?thesis
    unfolding flags_follow_position_def ball_two_pipes[OF len] by simp
qed

lemma pipes_spaced_step:
  assumes "pipes_spaced (pipes s)"
  shows "pipes_spaced (pipes (move_entities b s))"
proof -
  from assms have l: "length (pipes s) = NUM_PIPES" by (simp add: pipes_spaced_def)
  have len: "length (pipes (move_entities b s)) = NUM_PIPES"
    using l by (simp add: move_entities_fields)
  have x0: "pipe_x (pipes (move_entities b s) ! 0) =
      (if recycles (pipes s ! 0) then 320 else pipe_x (pipes s ! 0) - 2)"
    and x1: "pipe_x (pipes (move_entities b s) ! 1) =
      (if recycles (pipes s ! 1) then 320 else pipe_x (pipes s ! 1) - 2)"
    using move_entities_pipe(1)[OF l, of 0 b] move_entities_pipe(1)[OF l, of 1 b] by simp_all
  from assms have inv: "even (pipe_x (pipes s ! 0))" "- 40 \<le> pipe_x (pipes s ! 0)"
    "even (pipe_x (pipes s ! 1))" "- 40 \<le> pipe_x (pipes s ! 1)"
    "pipe_x (pipes s ! 1) - pipe_x (pipes s ! 0) = 180
     \<or> pipe_x (pipes s ! 0) - pipe_x (pipes s ! 1) = 182"
    unfolding pipes_spaced_def ball_two_pipes[OF l] by simp_all
  have r0: "recycles (pipes s ! 0) \<longleftrightarrow> pipe_x (pipes s ! 0) = - 40"
    using inv(1,2) by (auto simp add: recycles_def elim!: evenE)
  have r1: "recycles (pipes s ! 1) \<longleftrightarrow> pipe_x (pipes s ! 1) = - 40"
    using inv(3,4) by (auto simp add: recycles_def elim!: evenE)
  show ?thesis
    unfolding pipes_spaced_def ball_two_pipes[OF len] x0 x1 r0 r1
    using inv len by (auto simp del: One_nat_def)
qed

lemma setupGame_invariants:
  assumes "length (pipes s) = NUM_PIPES"
  shows "gaps_in_band (pipes (setupGame s))"
    and "flags_follow_position (pipes (setupGame s))"
    and "pipes_spaced (pipes (setupGame s))"
  using setupGame_pipes[OF assms]
  by (auto simp add: gaps_in_band_def flags_follow_position_def pipes_spaced_def)

lemma bird_inv_update: "bird_inv s \<Longrightarrow> bird_inv (updateGameLogic_bird b s)"
  by (simp add: bird_inv_def updateGameLogic_bird_fields move_entities_fields
      gaps_in_band_step flags_follow_position_step pipes_spaced_step)

lemma bird_inv_setupGame: "length (pipes s) = NUM_PIPES \<Longrightarrow> bird_inv (setupGame s)"
  by (simp add: bird_inv_def setupGame_fields setupGame_invariants)

lemma bird_inv_gameState [simp]: "bird_inv (s\<lparr>gameState_bird := x\<rparr>) = bird_inv s"
  by (simp add: bird_inv_def)

lemma bird_inv_loop:
  assumes "bird_inv s" and "loop_bird b w s = Some t"
  shows "bird_inv t"
proof (cases "gameState_bird s")
  case START_SCREEN
  with assms show ?thesis by (auto simp add: loop_bird_def split: if_splits option.splits)
next
  case PLAYING
  with assms show ?thesis by (auto simp add: loop_bird_def bird_inv_update)
next
  case GAME_OVER
  from assms(1) have "bird_inv (setupGame s)"
    by (intro bird_inv_setupGame) (simp add: bird_inv_def)
  with GAME_OVER assms show ?thesis
    by (auto simp add: loop_bird_def split: if_splits option.splits)
qed

lemma bird_inv_setup: "bird_inv (setup_bird g)"
  by (simp add: setup_bird_def bird_inv_setupGame power_on_bird_def)

lemma bird_run_inv: "bird_run s t \<Longrightarrow> bird_inv s \<Longrightarrow> bird_inv t"
  by (induction rule: bird_run.induct) (auto intro: bird_inv_loop)

lemma bird_run_highScore: "bird_run s t \<Longrightarrow> highScore s \<le> highScore t"
  by (induction rule: bird_run.induct) (auto dest: loop_bird_highScore)

lemma bird_run_trans: "bird_run t u \<Longrightarrow> bird_run s t \<Longrightarrow> bird_run s u"
  by (induction rule: bird_run.induct) (auto intro: bird_run_step)

lemma start_screen_is_setup_state:
  assumes "bird_run (setup_bird g) u" and "gameState_bird u = START_SCREEN"
  shows "u = setup_bird g"
  using assms
proof (induction "setup_bird g" u rule: bird_run.induct)
  case bird_run_refl
  then show ?case by simp
next
  case (bird_run_step t b w u)
  show ?case
  proof (cases "gameState_bird t")
    case START_SCREEN
    with bird_run_step show ?thesis
      by (auto simp add: loop_bird_def split: if_splits option.splits)
  next
    case PLAYING
    with bird_run_step updateGameLogic_bird_state[of b t] show ?thesis
      by (auto simp add: loop_bird_def)
  next
    case GAME_OVER
    with bird_run_step show ?thesis
      by (auto simp add: loop_bird_def split: if_splits option.splits)
  qed
qed

subsection \<open>Obstacle runner: sequences of updates\<close>

lemma change_between:
  fixes P :: "nat \<Rightarrow> bool"
  shows "P j \<Longrightarrow> \<not> P k \<Longrightarrow> j \<le> k \<Longrightarrow> \<exists>m. j \<le> m \<and> m < k \<and> P m \<and> \<not> P (Suc m)"
proof (induction k)
  case 0
  then show ?case by simp
next
  case (Suc k)
  show ?case
  proof (cases "P k")
    case True
    from Suc.prems have "j \<noteq> Suc k" by auto
    with Suc.prems have "j \<le> k" by simp
    with True Suc.prems show ?thesis by auto
  next
    case False
    from Suc.prems have "j \<noteq> Suc k" by auto
    with Suc.prems have "j \<le> k" by simp
    from Suc.IH[OF Suc.prems(1) False this] show ?thesis by (auto intro: less_SucI)
  qed
qed

lemma ticks_length: "length (pipes (ticks b s k)) = length (pipes s)"
  by (induction k) (simp_all add: updateGameLogic_bird_fields move_entities_fields)

lemma ticks_flags:
  "length (pipes s) = NUM_PIPES \<Longrightarrow> flags_follow_position (pipes s) \<Longrightarrow>
     flags_follow_position (pipes (ticks b s k))"
  by (induction k)
     (simp_all add: updateGameLogic_bird_fields flags_follow_position_step ticks_length)

lemma ticks_pipe:
  assumes "length (pipes s) = NUM_PIPES" and "i < NUM_PIPES"
  shows "pipe_x (pipes (ticks b s (Suc k)) ! i) =
           (if recycles_at b s i k then SCREEN_WIDTH else pipe_x (pipes (ticks b s k) ! i) - PIPE_SPEED)"
    and "scored (pipes (ticks b s (Suc k)) ! i) =
           (\<not> recycles_at b s i k
            \<and> (scored (pipes (ticks b s k) ! i)
                \<or> pipe_x (pipes (ticks b s k) ! i) - PIPE_SPEED + PIPE_WIDTH < BIRD_X_POS))"
proof -
  have l: "length (pipes (ticks b s k)) = NUM_PIPES" using assms(1) by (simp add: ticks_length)
  show "pipe_x (pipes (ticks b s (Suc k)) ! i) =
           (if recycles_at b s i k then SCREEN_WIDTH else pipe_x (pipes (ticks b s k) ! i) - PIPE_SPEED)"
    by (simp add: updateGameLogic_bird_fields move_entities_pipe(1)[OF l assms(2)] recycles_at_def)
  show "scored (pipes (ticks b s (Suc k)) ! i) =
           (\<not> recycles_at b s i k
            \<and> (scored (pipes (ticks b s k) ! i)
                \<or> pipe_x (pipes (ticks b s k) ! i) - PIPE_SPEED + PIPE_WIDTH < BIRD_X_POS))"
    by (simp add: updateGameLogic_bird_fields move_entities_pipe(2)[OF l assms(2)] recycles_at_def)
qed

lemma scores_at_pipe_scores:
  assumes "length (pipes s) = NUM_PIPES" and "i < NUM_PIPES"
  shows "scores_at b s i k = pipe_scores (pipes (ticks b s k) ! i)"
  unfolding scores_at_def ticks_pipe(2)[OF assms]
  by (auto simp add: pipe_scores_def recycles_at_def)

lemma flag_cleared_only_by_recycle:
  assumes "length (pipes s) = NUM_PIPES" and "i < NUM_PIPES"
    and "scored (pipes (ticks b s k) ! i)" and "\<not> scored (pipes (ticks b s (Suc k)) ! i)"
  shows "recycles_at b s i k"
  using assms(3,4) unfolding ticks_pipe(2)[OF assms(1,2)] by auto

lemma at_most_one_score_between_recycles:
  assumes "length (pipes s) = NUM_PIPES" and "i < NUM_PIPES"
    and "j < k" and "scores_at b s i j" and "scores_at b s i k"
  shows "\<exists>m. j < m \<and> m < k \<and> recycles_at b s i m"
proof -
  let ?P = "\<lambda>n. scored (pipes (ticks b s n) ! i)"
  from assms(4,5) have "?P (Suc j)" "\<not> ?P k" by (simp_all add: scores_at_def)
  moreover from assms(3) have "Suc j \<le> k" by simp
  ultimately obtain m where m: "Suc j \<le> m" "m < k" "?P m" "\<not> ?P (Suc m)"
    using change_between[of ?P "Suc j" k] by blast
  from m(1) have "j < m" by simp
  with flag_cleared_only_by_recycle[OF assms(1,2) m(3,4)] m(2) show ?thesis by blast
qed

lemma score_between_recycles:
  assumes "length (pipes s) = NUM_PIPES" and "i < NUM_PIPES" and "flags_follow_position (pipes s)"
    and "j < k" and "recycles_at b s i j" and "recycles_at b s i k"
  shows "\<exists>m. j < m \<and> m < k \<and> scores_at b s i m"
proof -
  let ?P = "\<lambda>n. \<not> scored (pipes (ticks b s n) ! i)"
  have l: "length (pipes (ticks b s k)) = NUM_PIPES" using assms(1) by (simp add: ticks_length)
  from assms(2) l have "pipes (ticks b s k) ! i \<in> set (pipes (ticks b s k))" by simp
  with ticks_flags[OF assms(1,3), of b k]
  have "scored (pipes (ticks b s k) ! i) = (pipe_x (pipes (ticks b s k) ! i) + 40 < 60)"
    unfolding flags_follow_position_def by simp
  with assms(6) have "\<not> ?P k" by (simp add: recycles_at_def recycles_def)
  moreover from assms(5) have "?P (Suc j)"
    by (simp add: ticks_pipe(2)[OF assms(1,2)] del: ticks.simps)
  moreover from assms(4) have "Suc j \<le> k" by simp
  ultimately obtain m where m: "Suc j \<le> m" "m < k" "?P m" "\<not> ?P (Suc m)"
    using change_between[of ?P "Suc j" k] by blast
  from m(1) have "j < m" by simp
  with m(2,3,4) show ?thesis unfolding scores_at_def by blast
qed

lemma positions_from:
  assumes "length (pipes s) = NUM_PIPES" and "i < NUM_PIPES"
  shows "- PIPE_WIDTH \<le> pipe_x (pipes (ticks b s j) ! i) - PIPE_SPEED * int m \<Longrightarrow>
         pipe_x (pipes (ticks b s (j + m)) ! i)
           = pipe_x (pipes (ticks b s j) ! i) - PIPE_SPEED * int m"
proof (induction m)
  case 0
  show ?case by simp
next
  case (Suc m)
  from Suc.prems have "- PIPE_WIDTH \<le> pipe_x (pipes (ticks b s j) ! i) - PIPE_SPEED * int m"
    by simp
  from Suc.IH[OF this]
  have x: "pipe_x (pipes (ticks b s (j + m)) ! i)
             = pipe_x (pipes (ticks b s j) ! i) - PIPE_SPEED * int m" .
  with Suc.prems have "\<not> recycles_at b s i (j + m)"
    by (simp add: recycles_at_def recycles_def)
  with x have "pipe_x (pipes (ticks b s (Suc (j + m))) ! i)
                 = pipe_x (pipes (ticks b s j) ! i) - PIPE_SPEED * int (Suc m)"
    unfolding ticks_pipe(1)[OF assms, of b "j + m"] by simp
  then show ?case by (simp del: ticks.simps)
qed

lemma pass_after_recycle:
  assumes "length (pipes s) = NUM_PIPES" and "i < NUM_PIPES" and "recycles_at b s i j"
  shows "recycles_at b s i (j + 181)"
    and "j < m \<Longrightarrow> m < j + 181 \<Longrightarrow> \<not> recycles_at b s i m"
proof -
  have start: "pipe_x (pipes (ticks b s (Suc j)) ! i) = SCREEN_WIDTH"
    unfolding ticks_pipe(1)[OF assms(1,2)] using assms(3) by simp
  have pos: "pipe_x (pipes (ticks b s (Suc j + n)) ! i) = SCREEN_WIDTH - PIPE_SPEED * int n"
    if "n \<le> 180" for n
    using positions_from[OF assms(1,2), of b "Suc j" n] that unfolding start by simp
  have e: "j + 181 = Suc j + 180" by simp
  show "recycles_at b s i (j + 181)"
    unfolding e recycles_at_def recycles_def using pos[of 180] by (simp del: ticks.simps)
  assume "j < m" "m < j + 181"
  then obtain n where n: "m = Suc j + n" "n < 180"
    by (metis add_Suc_right add_Suc less_iff_Suc_add Suc_less_eq nat_add_left_cancel_less
        numeral_eq_Suc pred_numeral_simps(2,3) semiring_norm(26,27))
  with pos[of n] show "\<not> recycles_at b s i m"
    by (simp add: recycles_at_def recycles_def del: ticks.simps)
qed

lemma first_recycle:
  assumes "length (pipes s) = NUM_PIPES" and "i < NUM_PIPES"
    and "pipe_x (pipes s ! i) = SCREEN_WIDTH"
  shows "recycles_at b s i 180"
  using positions_from[OF assms(1,2), of b 0 180] assms(3)
  by (simp add: recycles_at_def recycles_def del: ticks.simps(2))

lemma ticks_playing_run:
  "gameState_bird (ticks b s n) = PLAYING \<Longrightarrow> bird_run s (ticks b s n)"
proof (induction n)
  case 0
  show ?case by (simp add: bird_run_refl)
next
  case (Suc n)
  from Suc.prems updateGameLogic_bird_state[of "b n" "ticks b s n"]
  have p: "gameState_bird (ticks b s n) = PLAYING" by auto
  from loop_bird_playing[OF p, of "b n" released] Suc.IH[OF p]
  show ?case by (auto intro: bird_run_step)
qed

lemma ticks_numeral:
  "ticks b s (numeral n) = updateGameLogic_bird (b (pred_numeral n)) (ticks b s (pred_numeral n))"
  by (simp add: numeral_eq_Suc)

lemma ticks_Suc_0: "ticks b s (Suc 0) = updateGameLogic_bird (b 0) s"
  by simp

subsection \<open>Obstacle runner: the example states\<close>

lemmas bird_eval =
  updateGameLogic_bird_def move_entities_def handle_input_def bird_physics_def pipe_logic_def
  checkCollisions_def setupGame_def setup_pipe_def setup_bird_def power_on_bird_def
  random_gap_def random1_def random2_def any_pressed_def left_pressed_def right_pressed_def
  upt_NUM_PIPES Let_def

lemma zeros_draw: "random_gap zeros = (60, zeros)"
  by (simp add: random_gap_def random1_def random2_def zeros_def)

lemmas tick_eval =
  updateGameLogic_bird_def move_entities_def handle_input_def bird_physics_def pipe_logic_def
  checkCollisions_def zeros_draw any_pressed_def left_pressed_def right_pressed_def Let_def

lemma setup_zeros_value:
  "setup_bird zeros =
     \<lparr>gameState_bird = START_SCREEN,
      pipes = [\<lparr>pipe_x = 320, gap_y = 60, scored = False\<rparr>,
               \<lparr>pipe_x = 500, gap_y = 60, scored = False\<rparr>],
      bird_y = 85, bird_y_velocity = 0, score = 0, highScore = 0,
      button_was_pressed = False, rng_bird = zeros\<rparr>"
  by (simp add: bird_eval zeros_def)

lemma first_game_value:
  "first_game =
     \<lparr>gameState_bird = PLAYING,
      pipes = [\<lparr>pipe_x = 320, gap_y = 60, scored = False\<rparr>,
               \<lparr>pipe_x = 500, gap_y = 60, scored = False\<rparr>],
      bird_y = 85, bird_y_velocity = 0, score = 0, highScore = 0,
      button_was_pressed = False, rng_bird = zeros\<rparr>"
  by (simp add: first_game_def bird_eval zeros_def)

lemma steady_pass_playing: "gameState_bird (ticks steady first_game 362) = PLAYING"
  unfolding first_game_value
  by (simp add: ticks_numeral ticks_Suc_0 tick_eval steady_def del: ticks.simps(2))

lemma flag_events_numeral:
  "flag_events i b w s k (numeral n) =
     (case loop_bird (b k) w s of
        None \<Rightarrow> []
      | Some t \<Rightarrow>
          (if gameState_bird s = PLAYING \<and> recycles (pipes s ! i) then [(k, Recycled)] else [])
          @ (if \<not> scored (pipes s ! i) \<and> scored (pipes t ! i) then [(k, Raised)] else [])
          @ flag_events i b w t (k + 1) (pred_numeral n))"
  by (simp add: numeral_eq_Suc)

lemma flag_events_one:
  "flag_events i b w s k (Suc 0) =
     (case loop_bird (b k) w s of
        None \<Rightarrow> []
      | Some t \<Rightarrow>
          (if gameState_bird s = PLAYING \<and> recycles (pipes s ! i) then [(k, Recycled)] else [])
          @ (if \<not> scored (pipes s ! i) \<and> scored (pipes t ! i) then [(k, Raised)] else []))"
  by (simp split: option.splits)

lemma example_states_inv:
  "bird_inv about_to_score" "bird_inv first_game" "bird_inv in_the_gap"
  "bird_inv falling_held"
  by (simp_all add: about_to_score_def first_game_value in_the_gap_def falling_held_def
      bird_inv_def
      gaps_in_band_def flags_follow_position_def pipes_spaced_def)

lemma about_to_score_tick:
  "updateGameLogic_bird (False, False) about_to_score =
     \<lparr>gameState_bird = PLAYING,
      pipes = [\<lparr>pipe_x = 18, gap_y = 80, scored = True\<rparr>,
               \<lparr>pipe_x = 198, gap_y = 70, scored = False\<rparr>],
      bird_y = 60.1, bird_y_velocity = 0.1, score = 4, highScore = 4,
      button_was_pressed = False, rng_bird = (\<lambda>n. 0)\<rparr>"
  by (simp add: about_to_score_def bird_eval)

lemma in_the_gap_facts:
  "gameState_bird in_the_gap = PLAYING"
  "length (pipes in_the_gap) = NUM_PIPES"
  "pipes_spaced (pipes in_the_gap)"
  "hd (pipes in_the_gap) \<in> set (pipes in_the_gap)"
  "overlaps_bird (hd (pipes in_the_gap))"
  "inside_gap (bird_y in_the_gap) (hd (pipes in_the_gap))"
  "0 \<le> bird_y in_the_gap"
  "bird_y in_the_gap + of_int BIRD_HEIGHT \<le> of_int (SCREEN_HEIGHT - GROUND_HEIGHT)"
  by (simp_all add: in_the_gap_def pipes_spaced_def overlaps_bird_def inside_gap_def)

lemma falling_held_tick:
  "updateGameLogic_bird (True, False) falling_held =
     \<lparr>gameState_bird = GAME_OVER,
      pipes = [\<lparr>pipe_x = 236, gap_y = 60, scored = False\<rparr>,
               \<lparr>pipe_x = 416, gap_y = 60, scored = False\<rparr>],
      bird_y = 145.9, bird_y_velocity = 7.6, score = 0, highScore = 0,
      button_was_pressed = True, rng_bird = (\<lambda>n. 0)\<rparr>"
  by (simp add: falling_held_def bird_eval)

lemma quiet_tick:
  assumes "\<not> (any_pressed b \<and> \<not> wp)" and "80 \<le> x0 - 2" and "80 \<le> x1 - 2"
    and "0 \<le> y + (v + 0.3)" and "y + (v + 0.3) \<le> 140"
  shows "updateGameLogic_bird b
           \<lparr>gameState_bird = PLAYING,
            pipes = [\<lparr>pipe_x = x0, gap_y = g0, scored = c0\<rparr>,
                     \<lparr>pipe_x = x1, gap_y = g1, scored = c1\<rparr>],
            bird_y = y, bird_y_velocity = v, score = sc, highScore = h,
            button_was_pressed = wp, rng_bird = r\<rparr>
         = \<lparr>gameState_bird = PLAYING,
            pipes = [\<lparr>pipe_x = x0 - 2, gap_y = g0, scored = c0\<rparr>,
                     \<lparr>pipe_x = x1 - 2, gap_y = g1, scored = c1\<rparr>],
            bird_y = y + (v + 0.3), bird_y_velocity = v + 0.3, score = sc, highScore = h,
            button_was_pressed = any_pressed b, rng_bird = r\<rparr>"
proof -
  have flap: "(if any_pressed b \<and> \<not> wp then x else y') = y'" for x y' :: bird
    using assms(1) by auto
  show ?thesis
    using assms(2-5)
    by (simp add: updateGameLogic_bird_def move_entities_def handle_input_def
        bird_physics_def pipe_logic_def checkCollisions_def Let_def flap)
qed

lemma first_tick:
  "updateGameLogic_bird (True, False) ((setup_bird zeros)\<lparr>gameState_bird := PLAYING\<rparr>)
     = \<lparr>gameState_bird = PLAYING,
        pipes = [\<lparr>pipe_x = 318, gap_y = 60, scored = False\<rparr>,
                 \<lparr>pipe_x = 498, gap_y = 60, scored = False\<rparr>],
        bird_y = 80.3, bird_y_velocity = - 4.7, score = 0, highScore = 0,
        button_was_pressed = True, rng_bird = zeros\<rparr>"
  by (simp add: bird_eval zeros_def)

lemma held_41:
  "ticks held ((setup_bird zeros)\<lparr>gameState_bird := PLAYING\<rparr>) 41
     = \<lparr>gameState_bird = PLAYING,
      pipes = [\<lparr>pipe_x = 238, gap_y = 60, scored = False\<rparr>,
               \<lparr>pipe_x = 418, gap_y = 60, scored = False\<rparr>],
      bird_y = 138.3, bird_y_velocity = 7.3, score = 0, highScore = 0,
      button_was_pressed = True, rng_bird = zeros\<rparr>"
  by (simp add: ticks_numeral ticks_Suc_0 held_pressed first_tick quiet_tick
      any_pressed_def left_pressed_def del: ticks.simps(2))

lemma falling_held_reachable: "bird_run (setup_bird zeros) falling_held"
proof -
  let ?s = "(setup_bird zeros)\<lparr>gameState_bird := PLAYING\<rparr>"
  have "loop_bird (True, False) released (setup_bird zeros) = Some ?s"
    by (simp add: loop_bird_def setup_bird_state wait_release_released
        any_pressed_def left_pressed_def)
  from bird_run_step[OF bird_run_refl this] have start: "bird_run (setup_bird zeros) ?s" .
  have eq: "ticks held ?s 41 = falling_held"
    unfolding held_41 by (simp add: falling_held_def zeros_def)
  then have "gameState_bird (ticks held ?s 41) = PLAYING" by (simp add: falling_held_def)
  from ticks_playing_run[OF this] have "bird_run ?s falling_held" by (simp only: eq)
  from bird_run_trans[OF this start] show ?thesis .
qed

subsection \<open>Obstacle runner: the claims\<close>

lemma collision_check_precondition:
  assumes "bird_run (setup_bird g) s" and "gameState_bird s = PLAYING"
  shows "gameState_bird (move_entities b s) = PLAYING"
    and "length (pipes (move_entities b s)) = NUM_PIPES"
    and "pipes_spaced (pipes (move_entities b s))"
  using bird_run_inv[OF assms(1) bird_inv_setup] assms(2)
  by (simp_all add: bird_inv_def move_entities_fields pipes_spaced_step)



text \<open>
  Claim C7, as amended. Obstacle runner: within one game, that is along any sequence of
  logic updates with no restart between them, from a state whose flags agree with the
  pipe positions, for each pipe \<open>i\<close>:
  \<^item> an update that recycles the pipe leaves it at the right edge with its flag false;
  \<^item> between two updates that turn the flag from false to true there is an update that
    recycles the pipe;
  \<^item> between two consecutive recycles of the pipe exactly one update turns the flag from
    false to true;
  \<^item> the flag turns from false to true in exactly the update in which the pipe's right
    edge passes the bird's position;
  \<^item> an update raises the score by one for each pipe whose flag it turns to true, and
    when the score has risen \<open>highScore\<close> is the larger of its old value and the new
    score.
  \<^item> a state that such a sequence reaches in \<open>PLAYING\<close> is reached by iterations of
    \<open>loop\<close>, each of them one of these updates.
  Every game starts from a state whose flags agree with the pipe positions (lemma
  \<open>setupGame_invariants\<close>).
\<close>

theorem pipe_scored_once_per_pass:
  assumes "length (pipes s) = NUM_PIPES" and "flags_follow_position (pipes s)"
    and "i < NUM_PIPES"
  shows "(\<forall>k. recycles_at b s i k \<longrightarrow>
              \<not> scored (pipes (ticks b s (Suc k)) ! i)
              \<and> pipe_x (pipes (ticks b s (Suc k)) ! i) = SCREEN_WIDTH)
       \<and> (\<forall>j k. j < k \<and> scores_at b s i j \<and> scores_at b s i k \<longrightarrow>
              (\<exists>m. j < m \<and> m < k \<and> recycles_at b s i m))
       \<and> (\<forall>j k. j < k \<and> recycles_at b s i j \<and> recycles_at b s i k
                 \<and> (\<forall>m. j < m \<and> m < k \<longrightarrow> \<not> recycles_at b s i m) \<longrightarrow>
              (\<exists>!m. j < m \<and> m < k \<and> scores_at b s i m))
       \<and> (\<forall>k. scores_at b s i k \<longleftrightarrow>
              BIRD_X_POS \<le> pipe_x (pipes (ticks b s k) ! i) + PIPE_WIDTH
              \<and> pipe_x (pipes (ticks b s (Suc k)) ! i) + PIPE_WIDTH < BIRD_X_POS)
       \<and> (\<forall>k. score (ticks b s (Suc k)) =
                score (ticks b s k) + (if scores_at b s 0 k then 1 else 0)
                                    + (if scores_at b s 1 k then 1 else 0)
              \<and> highScore (ticks b s (Suc k)) =
                  (if score (ticks b s (Suc k)) > score (ticks b s k)
                   then max (highScore (ticks b s k)) (score (ticks b s (Suc k)))
                   else highScore (ticks b s k)))
       \<and> (\<forall>n. gameState_bird (ticks b s n) = PLAYING \<longrightarrow> bird_run s (ticks b s n))"
proof (intro conjI allI impI)
  fix k
  assume "recycles_at b s i k"
  then show "\<not> scored (pipes (ticks b s (Suc k)) ! i)"
    and "pipe_x (pipes (ticks b s (Suc k)) ! i) = SCREEN_WIDTH"
    by (simp_all add: ticks_pipe[OF assms(1,3)] del: ticks.simps)
next
  fix j k
  assume "j < k \<and> scores_at b s i j \<and> scores_at b s i k"
  then show "\<exists>m. j < m \<and> m < k \<and> recycles_at b s i m"
    using at_most_one_score_between_recycles[OF assms(1,3), of j k b] by blast
next
  fix j k
  assume h: "j < k \<and> recycles_at b s i j \<and> recycles_at b s i k
                 \<and> (\<forall>m. j < m \<and> m < k \<longrightarrow> \<not> recycles_at b s i m)"
  then obtain m where m: "j < m" "m < k" "scores_at b s i m"
    using score_between_recycles[OF assms(1,3,2), of j k b] by blast
  have "n = m" if n: "j < n" "n < k" "scores_at b s i n" for n
  proof (rule ccontr)
    assume "n \<noteq> m"
    then consider "n < m" | "m < n" by linarith
    then obtain r where "j < r" "r < k" "recycles_at b s i r"
    proof cases
      case 1
      from at_most_one_score_between_recycles[OF assms(1,3) 1 n(3) m(3)] n(1) m(2)
      show ?thesis using that by (meson less_trans)
    next
      case 2
      from at_most_one_score_between_recycles[OF assms(1,3) 2 m(3) n(3)] m(1) n(2)
      show ?thesis using that by (meson less_trans)
    qed
    with h show False by blast
  qed
  with m show "\<exists>!m. j < m \<and> m < k \<and> scores_at b s i m" by blast
next
  fix k
  have l: "length (pipes (ticks b s k)) = NUM_PIPES" "length (pipes (ticks b s (Suc k))) = NUM_PIPES"
    using assms(1) by (simp_all only: ticks_length)
  from assms(3) l have "pipes (ticks b s k) ! i \<in> set (pipes (ticks b s k))"
    "pipes (ticks b s (Suc k)) ! i \<in> set (pipes (ticks b s (Suc k)))" by simp_all
  with ticks_flags[OF assms(1,2), of b k] ticks_flags[OF assms(1,2), of b "Suc k"]
  have "scored (pipes (ticks b s k) ! i) = (pipe_x (pipes (ticks b s k) ! i) + 40 < 60)"
    "scored (pipes (ticks b s (Suc k)) ! i) = (pipe_x (pipes (ticks b s (Suc k)) ! i) + 40 < 60)"
    unfolding flags_follow_position_def by simp_all
  then show "scores_at b s i k \<longleftrightarrow>
              BIRD_X_POS \<le> pipe_x (pipes (ticks b s k) ! i) + PIPE_WIDTH
              \<and> pipe_x (pipes (ticks b s (Suc k)) ! i) + PIPE_WIDTH < BIRD_X_POS"
    unfolding scores_at_def by auto
next
  fix k
  have l: "length (pipes (ticks b s k)) = NUM_PIPES"
    using assms(1) by (simp only: ticks_length)
  have sa: "scores_at b s 0 k = pipe_scores (pipes (ticks b s k) ! 0)"
    "scores_at b s (Suc 0) k = pipe_scores (pipes (ticks b s k) ! Suc 0)"
    using scores_at_pipe_scores[OF assms(1), of 0 b k]
      scores_at_pipe_scores[OF assms(1), of "Suc 0" b k] by simp_all
  show "score (ticks b s (Suc k)) =
                score (ticks b s k) + (if scores_at b s 0 k then 1 else 0)
                                    + (if scores_at b s 1 k then 1 else 0)"
    by (simp add: sa updateGameLogic_bird_fields move_entities_score(1)[OF l])
  show "highScore (ticks b s (Suc k)) =
                  (if score (ticks b s (Suc k)) > score (ticks b s k)
                   then max (highScore (ticks b s k)) (score (ticks b s (Suc k)))
                   else highScore (ticks b s k))"
    using move_entities_score(2)[OF l, of "b k"]
    by (simp add: updateGameLogic_bird_fields)
next
  fix n
  assume "gameState_bird (ticks b s n) = PLAYING"
  then show "bird_run s (ticks b s n)" by (rule ticks_playing_run)
qed

text \<open>
  A pass inside a game: the steady player is still playing after 362 updates of the
  first game; updates 180 and 361 recycle the first pipe, the first of them leaves it
  at the right edge with its flag false, and exactly one update between them scores it.
\<close>

theorem pipe_scored_once_per_pass_witness:
  "length (pipes first_game) = NUM_PIPES
   \<and> flags_follow_position (pipes first_game)
   \<and> bird_run (setup_bird zeros) (ticks steady first_game 362)
   \<and> gameState_bird (ticks steady first_game 362) = PLAYING
   \<and> recycles_at steady first_game 0 180
   \<and> recycles_at steady first_game 0 361
   \<and> \<not> scored (pipes (ticks steady first_game 181) ! 0)
   \<and> pipe_x (pipes (ticks steady first_game 181) ! 0) = SCREEN_WIDTH
   \<and> (\<exists>!m. 180 < m \<and> m < 361 \<and> scores_at steady first_game 0 m)"
proof -
  have h1: "length (pipes first_game) = NUM_PIPES"
    and h2: "flags_follow_position (pipes first_game)"
    and h3: "(0::nat) < NUM_PIPES"
    and h4: "pipe_x (pipes first_game ! 0) = SCREEN_WIDTH"
    by (simp_all add: first_game_value flags_follow_position_def)
  have "loop_bird (True, False) released (setup_bird zeros) = Some first_game"
    by (simp add: loop_bird_def setup_bird_state wait_release_released
        any_pressed_def left_pressed_def first_game_def)
  from bird_run_step[OF bird_run_refl this] have "bird_run (setup_bird zeros) first_game" .
  from bird_run_trans[OF ticks_playing_run[OF steady_pass_playing] this]
  have run: "bird_run (setup_bird zeros) (ticks steady first_game 362)" .
  have r180: "recycles_at steady first_game 0 180"
    by (rule first_recycle[OF h1 h3 h4])
  from pass_after_recycle[OF h1 h3 r180]
  have r361: "recycles_at steady first_game 0 361"
    and none: "\<And>m. 180 < m \<Longrightarrow> m < 361 \<Longrightarrow> \<not> recycles_at steady first_game 0 m"
    by simp_all
  note facts = pipe_scored_once_per_pass[OF h1 h2 h3, of steady]
  from facts[THEN conjunct1, rule_format, OF r180]
  have after: "\<not> scored (pipes (ticks steady first_game 181) ! 0)
               \<and> pipe_x (pipes (ticks steady first_game 181) ! 0) = SCREEN_WIDTH"
    by (simp add: numeral_eq_Suc)
  have between: "(180::nat) < 361 \<and> recycles_at steady first_game 0 180
        \<and> recycles_at steady first_game 0 361
        \<and> (\<forall>m. 180 < m \<and> m < 361 \<longrightarrow> \<not> recycles_at steady first_game 0 m)"
    using r180 r361 none by simp
  from facts[THEN conjunct2, THEN conjunct2, THEN conjunct1, rule_format, OF between]
  have once: "\<exists>!m. 180 < m \<and> m < 361 \<and> scores_at steady first_game 0 m" .
  from h1 h2 run steady_pass_playing r180 r361 after once show ?thesis by (intro conjI) simp_all
qed

text \<open>
  Claim C7 as stated fails across a restart: \<open>setupGame\<close> clears the flags and puts the
  pipes back without recycling them. In the run of the player \<open>flaps\<close> from power-up,
  the first pipe is recycled in iterations 181 and 522 and in no iteration between them,
  and its flag turns from false to true twice in between, in iteration 332 of the first
  game and in iteration 492 of the second.
\<close>

theorem restart_raises_flag_twice:
  "flag_events 0 flaps released (setup_bird zeros) 0 523 =
     [(151, Raised), (181, Recycled), (332, Raised), (492, Raised), (522, Recycled)]"
  unfolding setup_zeros_value
  by (simp add: flag_events_numeral flag_events_one loop_bird_def wait_release_released
      tick_eval setupGame_def setup_pipe_def recycles_def flaps_def
      del: flag_events.simps(2))

text \<open>
  Claim C8. Obstacle runner: in every state of a run from power-up there are
  \<open>NUM_PIPES\<close> pipes, and each gap centre lies within \<open>[PIPE_GAP_HEIGHT / 2 + 20,
  SCREEN_HEIGHT - PIPE_GAP_HEIGHT / 2 - GROUND_HEIGHT - 20]\<close>, that is \<open>[60, 100]\<close>, so
  that the gap lies between the top of the screen and the ground strip.
\<close>

theorem gap_centre_within_band:
  assumes "bird_run (setup_bird g) s"
  shows "length (pipes s) = NUM_PIPES
         \<and> (\<forall>p\<in>set (pipes s).
              PIPE_GAP_HEIGHT div 2 + 20 \<le> gap_y p
              \<and> gap_y p \<le> SCREEN_HEIGHT - PIPE_GAP_HEIGHT div 2 - GROUND_HEIGHT - 20
              \<and> 0 \<le> gap_y p - PIPE_GAP_HEIGHT div 2
              \<and> gap_y p + PIPE_GAP_HEIGHT div 2 \<le> SCREEN_HEIGHT - GROUND_HEIGHT)"
  using bird_run_inv[OF assms bird_inv_setup]
  by (auto simp add: bird_inv_def gaps_in_band_def)

text \<open>After \<open>setup\<close> with the counting generator the gap centres are 60 and 61.\<close>

theorem gap_centre_within_band_witness:
  "bird_run (setup_bird counting) (setup_bird counting)
   \<and> map gap_y (pipes (setup_bird counting)) = [60, 61]
   \<and> length (pipes (setup_bird counting)) = NUM_PIPES
   \<and> PIPE_GAP_HEIGHT div 2 + 20 \<le> gap_y (hd (pipes (setup_bird counting)))
   \<and> gap_y (hd (pipes (setup_bird counting)))
        \<le> SCREEN_HEIGHT - PIPE_GAP_HEIGHT div 2 - GROUND_HEIGHT - 20"
proof -
  have r: "bird_run (setup_bird counting) (setup_bird counting)" by (rule bird_run_refl)
  have g: "map gap_y (pipes (setup_bird counting)) = [60, 61]"
    by (simp add: bird_eval counting_def)
  then have "hd (pipes (setup_bird counting)) \<in> set (pipes (setup_bird counting))"
    by (cases "pipes (setup_bird counting)") simp_all
  with gap_centre_within_band[OF r] r g show ?thesis by simp
qed

text \<open>
  Claim C9. Obstacle runner: \<open>setupGame\<close> leaves \<open>highScore\<close> as it is, a logic update
  never lowers it, and along any run (any number of games) it never decreases; whenever
  an update raises the score, \<open>highScore\<close> becomes the larger of its old value and the
  new score.
\<close>

theorem highScore_never_decreases:
  "highScore (setupGame s) = highScore s
   \<and> highScore s \<le> highScore (updateGameLogic_bird b s)
   \<and> (score s < score (updateGameLogic_bird b s) \<longrightarrow>
        highScore (updateGameLogic_bird b s)
          = max (highScore s) (score (updateGameLogic_bird b s)))
   \<and> (bird_run s t \<longrightarrow> highScore s \<le> highScore t)"
  using move_entities_highScore[of b s]
  by (auto simp add: setupGame_fields updateGameLogic_bird_fields bird_run_highScore)

text \<open>Scoring the fourth pipe with a high score of 3 raises the high score to 4.\<close>

theorem highScore_never_decreases_witness:
  "bird_run about_to_score (updateGameLogic_bird (False, False) about_to_score)
   \<and> score about_to_score < score (updateGameLogic_bird (False, False) about_to_score)
   \<and> highScore about_to_score = 3
   \<and> highScore (updateGameLogic_bird (False, False) about_to_score) = 4"
proof -
  have "loop_bird (False, False) released about_to_score
          = Some (updateGameLogic_bird (False, False) about_to_score)"
    by (rule loop_bird_playing) (simp add: about_to_score_def)
  from bird_run_step[OF bird_run_refl this]
  have run: "bird_run about_to_score (updateGameLogic_bird (False, False) about_to_score)" .
  have inc: "score about_to_score < score (updateGameLogic_bird (False, False) about_to_score)"
    by (simp add: about_to_score_tick) (simp add: about_to_score_def)
  from highScore_never_decreases[of about_to_score "(False, False)"
      "updateGameLogic_bird (False, False) about_to_score"] run inc
  show ?thesis by (simp add: about_to_score_tick) (simp add: about_to_score_def)
qed

text \<open>
  Claim C10. Obstacle runner: \<open>setupGame\<close> leaves \<open>button_was_pressed\<close> as it is. So
  when a switch is pressed in the update that ends a game, the restart carries
  \<open>button_was_pressed = true\<close> into the new game, and a switch pressed in the first
  update of the new game gives no flap: the velocity after that update is the reset
  velocity plus gravity, not \<open>FLAP_VELOCITY\<close> plus gravity.
\<close>

theorem stale_press_suppresses_first_flap:
  assumes "gameState_bird s = PLAYING" and "any_pressed b1"
    and "loop_bird b1 w1 s = Some s1" and "gameState_bird s1 = GAME_OVER"
    and "any_pressed b2" and "loop_bird b2 w2 s1 = Some s2"
    and "any_pressed b3" and "loop_bird b3 w3 s2 = Some s3"
  shows "(\<forall>u. button_was_pressed (setupGame u) = button_was_pressed u)
         \<and> button_was_pressed s1
         \<and> gameState_bird s2 = PLAYING \<and> button_was_pressed s2 \<and> bird_y_velocity s2 = 0
         \<and> bird_y_velocity s3 = bird_y_velocity s2 + GRAVITY
         \<and> bird_y_velocity s3 \<noteq> FLAP_VELOCITY + GRAVITY"
proof -
  from assms(1,3) have s1: "s1 = updateGameLogic_bird b1 s" by (simp add: loop_bird_playing)
  with assms(2) have w1: "button_was_pressed s1" by (simp add: updateGameLogic_bird_fields)
  from loop_bird_restart[OF assms(4,5,6)] have s2: "s2 = (setupGame s1)\<lparr>gameState_bird := PLAYING\<rparr>" .
  then have p2: "gameState_bird s2 = PLAYING" and v2: "bird_y_velocity s2 = 0"
    and w2: "button_was_pressed s2 = button_was_pressed s1"
    by (simp_all add: setupGame_fields)
  from p2 assms(8) have s3: "s3 = updateGameLogic_bird b3 s2" by (simp add: loop_bird_playing)
  have v3: "bird_y_velocity s3 = bird_y_velocity s2 + GRAVITY"
    using w1 w2 by (simp add: s3 updateGameLogic_bird_fields move_entities_fields)
  from w1 w2 p2 v2 v3 show ?thesis by (simp add: setupGame_fields)
qed

text \<open>
  Such an execution, from power-up: the left switch is held through the first game until
  the bird falls onto the ground, the game is restarted, and the switch is pressed in the
  first update of the new game.
\<close>

theorem stale_press_suppresses_first_flap_witness:
  "bird_run (setup_bird zeros) falling_held
   \<and> gameState_bird falling_held = PLAYING
   \<and> any_pressed (True, False)
   \<and> (\<exists>s1 s2 s3.
         loop_bird (True, False) released falling_held = Some s1
         \<and> gameState_bird s1 = GAME_OVER
         \<and> loop_bird (True, False) released s1 = Some s2
         \<and> loop_bird (True, False) released s2 = Some s3
         \<and> button_was_pressed s2
         \<and> bird_y_velocity s3 = GRAVITY)"
proof -
  let ?b = "(True, False)"
  let ?s1 = "updateGameLogic_bird ?b falling_held"
  let ?s2 = "(setupGame ?s1)\<lparr>gameState_bird := PLAYING\<rparr>"
  let ?s3 = "updateGameLogic_bird ?b ?s2"
  have h1: "gameState_bird falling_held = PLAYING" by (simp add: falling_held_def)
  have h2: "any_pressed ?b" by (simp add: any_pressed_def left_pressed_def)
  have h3: "loop_bird ?b released falling_held = Some ?s1"
    using h1 by (rule loop_bird_playing)
  have h4: "gameState_bird ?s1 = GAME_OVER" by (simp add: falling_held_tick)
  have h6: "loop_bird ?b released ?s1 = Some ?s2"
    using h2 h4 by (simp add: loop_bird_def wait_release_released)
  have h8: "loop_bird ?b released ?s2 = Some ?s3"
    by (rule loop_bird_playing) simp
  from stale_press_suppresses_first_flap[OF h1 h2 h3 h4 h2 h6 h2 h8]
  have "button_was_pressed ?s2 \<and> bird_y_velocity ?s3 = GRAVITY" by simp
  with falling_held_reachable h1 h2 h3 h4 h6 h8 show ?thesis by blast
qed

subsection \<open>Both sketches: from the title screen into the game\<close>

lemma setupGame_setup_bird:
  "score (setupGame (setup_bird g)) = score (setup_bird g)"
  "bird_y (setupGame (setup_bird g)) = bird_y (setup_bird g)"
  "bird_y_velocity (setupGame (setup_bird g)) = bird_y_velocity (setup_bird g)"
  "map pipe_x (pipes (setupGame (setup_bird g))) = map pipe_x (pipes (setup_bird g))"
  "map scored (pipes (setupGame (setup_bird g))) = map scored (pipes (setup_bird g))"
  "gaps_in_band (pipes (setupGame (setup_bird g)))"
proof -
  have l: "length (pipes (setup_bird g)) = NUM_PIPES"
    using bird_inv_setup[of g] by (simp add: bird_inv_def)
  show "score (setupGame (setup_bird g)) = score (setup_bird g)"
    "bird_y (setupGame (setup_bird g)) = bird_y (setup_bird g)"
    "bird_y_velocity (setupGame (setup_bird g)) = bird_y_velocity (setup_bird g)"
    by (simp_all add: setupGame_fields setup_bird_fields)
  from setupGame_pipes[OF l]
  show "map pipe_x (pipes (setupGame (setup_bird g))) = map pipe_x (pipes (setup_bird g))"
    "map scored (pipes (setupGame (setup_bird g))) = map scored (pipes (setup_bird g))"
    by (auto simp add: setup_bird_pipes)
  from setupGame_invariants(1)[OF l] show "gaps_in_band (pipes (setupGame (setup_bird g)))" .
qed

text \<open>
  Claim C1. In both sketches a loop iteration on the title screen stays there while no
  switch is pressed, and with a switch pressed (and released at some later poll of the
  busy-wait) it returns in \<open>PLAYING\<close> with the entity state initialised, before any
  logic update has run:
  \<^item> paddle-ball, from any state on the title screen: the iteration runs \<open>resetGame\<close>;
    both scores are zero, both paddles are centred, and the ball is served from the
    centre of the screen with horizontal speed 2 or 3 and vertical speed 3, up or down;
  \<^item> obstacle runner, in any run from power-up: the score is zero, the bird is at
    mid-height with velocity zero, and the two pipes are unscored, at the right edge and
    \<open>PIPE_SPACING\<close> behind it, with gap centres in the band. These are the values
    \<open>setupGame\<close> gives: the iteration itself changes the session state only, the title
    screen is only ever shown in the state \<open>setup\<close> left, and the result agrees with
    that of \<open>setupGame\<close> on the score, the bird, the pipe positions and the flags.
\<close>

theorem start_to_playing:
  assumes "any_pressed b" and "\<not> any_pressed (w k)" and "\<not> any_pressed b0"
  shows "(gameState_pong s = START_SCREEN \<longrightarrow>
            loop_pong b0 w s = Some s
            \<and> (\<exists>t. loop_pong b w s = Some t
                \<and> t = (resetGame s)\<lparr>gameState_pong := PLAYING\<rparr>
                \<and> gameState_pong t = PLAYING
                \<and> playerScore t = 0 \<and> aiScore t = 0
                \<and> player_x t = of_int ((SCREEN_WIDTH - PADDLE_WIDTH) div 2)
                \<and> ai_x t = of_int ((SCREEN_WIDTH - PADDLE_WIDTH) div 2)
                \<and> ball_x t = of_int (SCREEN_WIDTH div 2)
                \<and> ball_y t = of_int (SCREEN_HEIGHT div 2)
                \<and> (\<bar>ball_vx t\<bar> = 2 \<or> \<bar>ball_vx t\<bar> = 3)
                \<and> (ball_vy t = 3 \<or> ball_vy t = - 3)))
       \<and> (bird_run (setup_bird g) u \<and> gameState_bird u = START_SCREEN \<longrightarrow>
            u = setup_bird g
            \<and> loop_bird b0 w u = Some u
            \<and> (\<exists>t. loop_bird b w u = Some t
                \<and> t = u\<lparr>gameState_bird := PLAYING\<rparr>
                \<and> gameState_bird t = PLAYING
                \<and> score t = 0
                \<and> bird_y t = of_int (SCREEN_HEIGHT div 2)
                \<and> bird_y_velocity t = 0
                \<and> map pipe_x (pipes t) = [SCREEN_WIDTH, SCREEN_WIDTH + PIPE_SPACING]
                \<and> map scored (pipes t) = [False, False]
                \<and> gaps_in_band (pipes t)
                \<and> score t = score (setupGame u)
                \<and> bird_y t = bird_y (setupGame u)
                \<and> bird_y_velocity t = bird_y_velocity (setupGame u)
                \<and> map pipe_x (pipes t) = map pipe_x (pipes (setupGame u))
                \<and> map scored (pipes t) = map scored (pipes (setupGame u))
                \<and> gaps_in_band (pipes (setupGame u))))"
proof (intro conjI impI)
  from wait_release_returns[of w 0 k] assms(2)
  obtain m where m: "wait_release w 0 = Some m" by auto
  assume st: "gameState_pong s = START_SCREEN"
  then show "loop_pong b0 w s = Some s" using assms(3) by (simp add: loop_pong_def)
  from st have "loop_pong b w s = Some ((resetGame s)\<lparr>gameState_pong := PLAYING\<rparr>)"
    using assms(1) m by (simp add: loop_pong_def)
  then show "\<exists>t. loop_pong b w s = Some t
                \<and> t = (resetGame s)\<lparr>gameState_pong := PLAYING\<rparr>
                \<and> gameState_pong t = PLAYING
                \<and> playerScore t = 0 \<and> aiScore t = 0
                \<and> player_x t = of_int ((SCREEN_WIDTH - PADDLE_WIDTH) div 2)
                \<and> ai_x t = of_int ((SCREEN_WIDTH - PADDLE_WIDTH) div 2)
                \<and> ball_x t = of_int (SCREEN_WIDTH div 2)
                \<and> ball_y t = of_int (SCREEN_HEIGHT div 2)
                \<and> (\<bar>ball_vx t\<bar> = 2 \<or> \<bar>ball_vx t\<bar> = 3)
                \<and> (ball_vy t = 3 \<or> ball_vy t = - 3)"
    using resetGame_vx[of s] resetGame_vy[of s] by (simp add: resetGame_fields)
next
  from wait_release_returns[of w 0 k] assms(2)
  obtain m where m: "wait_release w 0 = Some m" by auto
  assume h: "bird_run (setup_bird g) u \<and> gameState_bird u = START_SCREEN"
  then show u: "u = setup_bird g" by (simp add: start_screen_is_setup_state)
  from h assms(3) show "loop_bird b0 w u = Some u" by (simp add: loop_bird_def)
  from h assms(1) m have "loop_bird b w u = Some (u\<lparr>gameState_bird := PLAYING\<rparr>)"
    by (simp add: loop_bird_def)
  moreover from bird_inv_setup[of g] have "gaps_in_band (pipes (setup_bird g))"
    by (simp add: bird_inv_def)
  ultimately show "\<exists>t. loop_bird b w u = Some t
                \<and> t = u\<lparr>gameState_bird := PLAYING\<rparr>
                \<and> gameState_bird t = PLAYING
                \<and> score t = 0
                \<and> bird_y t = of_int (SCREEN_HEIGHT div 2)
                \<and> bird_y_velocity t = 0
                \<and> map pipe_x (pipes t) = [SCREEN_WIDTH, SCREEN_WIDTH + PIPE_SPACING]
                \<and> map scored (pipes t) = [False, False]
                \<and> gaps_in_band (pipes t)
                \<and> score t = score (setupGame u)
                \<and> bird_y t = bird_y (setupGame u)
                \<and> bird_y_velocity t = bird_y_velocity (setupGame u)
                \<and> map pipe_x (pipes t) = map pipe_x (pipes (setupGame u))
                \<and> map scored (pipes t) = map scored (pipes (setupGame u))
                \<and> gaps_in_band (pipes (setupGame u))"
    unfolding u by (simp add: setup_bird_fields setup_bird_pipes setupGame_setup_bird)
qed

text \<open>
  Both sketches on the title screen after \<open>setup\<close>, with the left switch pressed and
  then released.
\<close>

theorem start_to_playing_witness:
  "any_pressed (True, False) \<and> \<not> any_pressed (released 0) \<and> \<not> any_pressed (False, False)
   \<and> pong_run (setup_pong counting) (setup_pong counting)
   \<and> gameState_pong (setup_pong counting) = START_SCREEN
   \<and> bird_run (setup_bird counting) (setup_bird counting)
   \<and> gameState_bird (setup_bird counting) = START_SCREEN
   \<and> loop_pong (False, False) released (setup_pong counting) = Some (setup_pong counting)
   \<and> (\<exists>t. loop_pong (True, False) released (setup_pong counting) = Some t
          \<and> gameState_pong t = PLAYING \<and> playerScore t = 0 \<and> aiScore t = 0
          \<and> player_x t = 120 \<and> ball_x t = 160 \<and> ball_y t = 85)
   \<and> loop_bird (False, False) released (setup_bird counting) = Some (setup_bird counting)
   \<and> (\<exists>t. loop_bird (True, False) released (setup_bird counting) = Some t
          \<and> gameState_bird t = PLAYING \<and> score t = 0 \<and> bird_y t = 85
          \<and> map pipe_x (pipes t) = [320, 500] \<and> map scored (pipes t) = [False, False])"
proof -
  have h1: "any_pressed (True, False)" and h0: "\<not> any_pressed (False, False)"
    by (simp_all add: any_pressed_def left_pressed_def right_pressed_def)
  have h3: "gameState_pong (setup_pong counting) = START_SCREEN"
    by (simp add: setup_pong_def)
  have h4: "bird_run (setup_bird counting) (setup_bird counting)"
    by (rule bird_run_refl)
  have h5: "gameState_bird (setup_bird counting) = START_SCREEN"
    by (rule setup_bird_state)
  note facts = start_to_playing[of "(True, False)" released 0 "(False, False)"
      "setup_pong counting" counting "setup_bird counting", OF h1 released_0 h0]
  from facts h3 have p0: "loop_pong (False, False) released (setup_pong counting)
      = Some (setup_pong counting)"
    by blast
  from facts h3 have p1: "\<exists>t. loop_pong (True, False) released (setup_pong counting) = Some t
          \<and> gameState_pong t = PLAYING \<and> playerScore t = 0 \<and> aiScore t = 0
          \<and> player_x t = 120 \<and> ball_x t = 160 \<and> ball_y t = 85"
    by simp
  note bird = facts[THEN conjunct2, THEN mp, OF conjI[OF h4 h5], THEN conjunct2]
  from bird have b0: "loop_bird (False, False) released (setup_bird counting)
      = Some (setup_bird counting)"
    by (rule conjunct1)
  have weaken: "\<And>P Q. \<exists>t::bird. P t \<Longrightarrow> (\<And>t. P t \<Longrightarrow> Q t) \<Longrightarrow> \<exists>t. Q t"
    by blast
  from bird[THEN conjunct2]
  have b1: "\<exists>t. loop_bird (True, False) released (setup_bird counting) = Some t
          \<and> gameState_bird t = PLAYING \<and> score t = 0 \<and> bird_y t = 85
          \<and> map pipe_x (pipes t) = [320, 500] \<and> map scored (pipes t) = [False, False]"
    by (rule weaken) simp
  from h1 released_0 h0 pong_run_refl h3 h4 h5 p0 p1 b0 b1 show ?thesis by (intro conjI)
qed

end
